theory Spec2Isabelle
  imports Complex_Main
begin

section \<open>JavaScript numbers\<close>

text \<open>
  The predictor of \<^verbatim>\<open>mlPredictor.ts\<close> computes on JavaScript numbers. A value read from
  an array of numbers is a finite number, one of the two infinities, NaN, or
  \<^verbatim>\<open>undefined\<close> (a read past the end of the array). Finite numbers are modelled as
  reals. A sum, product, quotient or square whose exact value reaches the magnitude at
  which IEEE 754 doubles round to an infinity becomes that infinity; below it the exact
  value is kept, so rounding, underflow and the sign of zero are outside the model. NaN,
  the infinities and \<^verbatim>\<open>undefined\<close> behave as ECMAScript prescribes:
  \<^verbatim>\<open>undefined\<close> converts to NaN in arithmetic, every comparison with NaN is false,
  NaN and 0 and \<^verbatim>\<open>undefined\<close> are falsy.
\<close>

datatype jsnum = Num real | PInf | NInf | NaN | Undef

text \<open>
  The largest double is \<open>2\<^sup>1\<^sup>0\<^sup>2\<^sup>4 - 2\<^sup>9\<^sup>7\<^sup>1\<close>; an exact result of magnitude
  \<open>2\<^sup>1\<^sup>0\<^sup>2\<^sup>4 - 2\<^sup>9\<^sup>7\<^sup>0\<close> or more rounds to an infinity.
\<close>

definition overflow_threshold :: real where
  "overflow_threshold = 2 ^ 1024 - 2 ^ 970"

definition overflow :: "real \<Rightarrow> jsnum" where
  "overflow x =
     (if overflow_threshold \<le> x then PInf
      else if x \<le> - overflow_threshold then NInf
      else Num x)"

fun js_neg :: "jsnum \<Rightarrow> jsnum" where
  "js_neg (Num a) = Num (- a)"
| "js_neg PInf = NInf"
| "js_neg NInf = PInf"
| "js_neg NaN = NaN"
| "js_neg Undef = NaN"

fun js_add :: "jsnum \<Rightarrow> jsnum \<Rightarrow> jsnum" where
  "js_add (Num a) (Num b) = overflow (a + b)"
| "js_add (Num a) PInf = PInf"
| "js_add (Num a) NInf = NInf"
| "js_add PInf (Num b) = PInf"
| "js_add PInf PInf = PInf"
| "js_add NInf (Num b) = NInf"
| "js_add NInf NInf = NInf"
| "js_add _ _ = NaN"

definition js_sub :: "jsnum \<Rightarrow> jsnum \<Rightarrow> jsnum" where
  "js_sub a b = js_add a (js_neg b)"

fun js_mul :: "jsnum \<Rightarrow> jsnum \<Rightarrow> jsnum" where
  "js_mul (Num a) (Num b) = overflow (a * b)"
| "js_mul (Num a) PInf = (if 0 < a then PInf else if a < 0 then NInf else NaN)"
| "js_mul (Num a) NInf = (if 0 < a then NInf else if a < 0 then PInf else NaN)"
| "js_mul PInf (Num b) = (if 0 < b then PInf else if b < 0 then NInf else NaN)"
| "js_mul NInf (Num b) = (if 0 < b then NInf else if b < 0 then PInf else NaN)"
| "js_mul PInf PInf = PInf"
| "js_mul PInf NInf = NInf"
| "js_mul NInf PInf = NInf"
| "js_mul NInf NInf = PInf"
| "js_mul _ _ = NaN"

text \<open>Division; a zero divisor is taken as \<^verbatim>\<open>+0\<close>.\<close>

fun js_div :: "jsnum \<Rightarrow> jsnum \<Rightarrow> jsnum" where
  "js_div (Num a) (Num b) =
     (if b = 0 then (if 0 < a then PInf else if a < 0 then NInf else NaN)
      else overflow (a / b))"
| "js_div (Num a) PInf = Num 0"
| "js_div (Num a) NInf = Num 0"
| "js_div PInf (Num b) = (if 0 \<le> b then PInf else NInf)"
| "js_div NInf (Num b) = (if 0 \<le> b then NInf else PInf)"
| "js_div _ _ = NaN"

fun js_lt :: "jsnum \<Rightarrow> jsnum \<Rightarrow> bool" where
  "js_lt (Num a) (Num b) = (a < b)"
| "js_lt (Num a) PInf = True"
| "js_lt NInf (Num b) = True"
| "js_lt NInf PInf = True"
| "js_lt _ _ = False"

fun js_le :: "jsnum \<Rightarrow> jsnum \<Rightarrow> bool" where
  "js_le (Num a) (Num b) = (a \<le> b)"
| "js_le (Num a) PInf = True"
| "js_le NInf (Num b) = True"
| "js_le NInf PInf = True"
| "js_le PInf PInf = True"
| "js_le NInf NInf = True"
| "js_le _ _ = False"

definition js_gt :: "jsnum \<Rightarrow> jsnum \<Rightarrow> bool" where
  "js_gt a b = js_lt b a"

definition js_ge :: "jsnum \<Rightarrow> jsnum \<Rightarrow> bool" where
  "js_ge a b = js_le b a"

fun isNaN :: "jsnum \<Rightarrow> bool" where
  "isNaN NaN = True"
| "isNaN Undef = True"
| "isNaN _ = False"

fun isFinite :: "jsnum \<Rightarrow> bool" where
  "isFinite (Num a) = True"
| "isFinite _ = False"

fun truthy :: "jsnum \<Rightarrow> bool" where
  "truthy (Num a) = (a \<noteq> 0)"
| "truthy PInf = True"
| "truthy NInf = True"
| "truthy NaN = False"
| "truthy Undef = False"

text \<open>\<^verbatim>\<open>a || b\<close> on numbers.\<close>

definition js_or :: "jsnum \<Rightarrow> jsnum \<Rightarrow> jsnum" where
  "js_or a b = (if truthy a then a else b)"

fun Math_abs :: "jsnum \<Rightarrow> jsnum" where
  "Math_abs (Num a) = Num \<bar>a\<bar>"
| "Math_abs PInf = PInf"
| "Math_abs NInf = PInf"
| "Math_abs NaN = NaN"
| "Math_abs Undef = NaN"

fun Math_sqrt :: "jsnum \<Rightarrow> jsnum" where
  "Math_sqrt (Num a) = (if 0 \<le> a then Num (sqrt a) else NaN)"
| "Math_sqrt PInf = PInf"
| "Math_sqrt _ = NaN"

text \<open>\<^verbatim>\<open>Math.pow(x, 2)\<close>.\<close>

fun Math_pow2 :: "jsnum \<Rightarrow> jsnum" where
  "Math_pow2 (Num a) = overflow (a * a)"
| "Math_pow2 PInf = PInf"
| "Math_pow2 NInf = PInf"
| "Math_pow2 _ = NaN"

fun Math_tanh :: "jsnum \<Rightarrow> jsnum" where
  "Math_tanh (Num a) = Num (tanh a)"
| "Math_tanh PInf = Num 1"
| "Math_tanh NInf = Num (- 1)"
| "Math_tanh _ = NaN"

definition Math_max :: "jsnum \<Rightarrow> jsnum \<Rightarrow> jsnum" where
  "Math_max a b = (if isNaN a \<or> isNaN b then NaN else if js_lt a b then b else a)"

definition Math_min :: "jsnum \<Rightarrow> jsnum \<Rightarrow> jsnum" where
  "Math_min a b = (if isNaN a \<or> isNaN b then NaN else if js_lt b a then b else a)"

section \<open>JavaScript arrays\<close>

text \<open>\<^verbatim>\<open>xs[i]\<close> on an array of numbers: \<^verbatim>\<open>undefined\<close> outside the array.\<close>

definition js_nth :: "jsnum list \<Rightarrow> int \<Rightarrow> jsnum" where
  "js_nth xs i = (if 0 \<le> i \<and> i < int (length xs) then xs ! nat i else Undef)"

text \<open>\<^verbatim>\<open>xs[i]\<close> on an array of objects: \<open>None\<close> is \<^verbatim>\<open>undefined\<close>.\<close>

definition js_nth_opt :: "'a list \<Rightarrow> int \<Rightarrow> 'a option" where
  "js_nth_opt xs i = (if 0 \<le> i \<and> i < int (length xs) then Some (xs ! nat i) else None)"

text \<open>
  \<^verbatim>\<open>Array.prototype.slice\<close>: a negative index counts from the end, and both ends are
  clipped to the array.
\<close>

definition js_rel :: "nat \<Rightarrow> int \<Rightarrow> nat" where
  "js_rel len k = (if k < 0 then nat (max (int len + k) 0) else min (nat k) len)"

definition js_slice :: "'a list \<Rightarrow> int \<Rightarrow> int \<Rightarrow> 'a list" where
  "js_slice xs s e =
     (let from = js_rel (length xs) s; to = js_rel (length xs) e
      in take (to - from) (drop from xs))"

definition js_slice_from :: "'a list \<Rightarrow> int \<Rightarrow> 'a list" where
  "js_slice_from xs s = drop (js_rel (length xs) s) xs"

text \<open>\<^verbatim>\<open>xs.reduce((a, b) => a + b, 0)\<close>.\<close>

definition js_sum :: "jsnum list \<Rightarrow> jsnum" where
  "js_sum xs = foldl js_add (Num 0) xs"

section \<open>Indicator library\<close>

text \<open>
  Window sizes, periods and the \<^verbatim>\<open>days\<close> of the backtest are integers. A loop that
  pushes one value per index is a \<open>map\<close> over the indices.
\<close>

definition calculateMovingAverage :: "jsnum list \<Rightarrow> int \<Rightarrow> jsnum list" where
  "calculateMovingAverage data window =
     map (\<lambda>i. if int i < window - 1 then js_nth data (int i)
               else js_div (js_sum (js_slice data (int i - window + 1) (int i + 1)))
                      (Num (of_int window)))
       [0 ..< length data]"

text \<open>The first loop of \<^verbatim>\<open>calculateRSI\<close>: one gain and one loss per step of the prices.\<close>

definition rsi_gains :: "jsnum list \<Rightarrow> jsnum list" where
  "rsi_gains prices =
     map (\<lambda>i. let change = js_sub (js_nth prices (int i)) (js_nth prices (int i - 1))
               in if js_gt change (Num 0) then change else Num 0)
       [1 ..< length prices]"

definition rsi_losses :: "jsnum list \<Rightarrow> jsnum list" where
  "rsi_losses prices =
     map (\<lambda>i. let change = js_sub (js_nth prices (int i)) (js_nth prices (int i - 1))
               in if js_lt change (Num 0) then Math_abs change else Num 0)
       [1 ..< length prices]"

definition calculateRSI :: "jsnum list \<Rightarrow> int \<Rightarrow> jsnum list" where
  "calculateRSI prices period =
     (let gains = rsi_gains prices; losses = rsi_losses prices
      in map (\<lambda>i. if int i < period - 1 then Num 50
                   else
                     let avgGain = js_div (js_sum (js_slice gains (int i - period + 1) (int i + 1)))
                                     (Num (of_int period));
                         avgLoss = js_div (js_sum (js_slice losses (int i - period + 1) (int i + 1)))
                                     (Num (of_int period));
                         rs = js_div avgGain (js_or avgLoss (Num 0.01))
                     in js_sub (Num 100) (js_div (Num 100) (js_add (Num 1) rs)))
           [0 ..< length gains])"

fun ema_loop :: "jsnum \<Rightarrow> jsnum \<Rightarrow> jsnum list \<Rightarrow> jsnum list" where
  "ema_loop multiplier prev [] = []"
| "ema_loop multiplier prev (p # ps) =
     (let e = js_add (js_mul p multiplier) (js_mul prev (js_sub (Num 1) multiplier))
      in e # ema_loop multiplier e ps)"

definition calculateEMA :: "jsnum list \<Rightarrow> int \<Rightarrow> jsnum list" where
  "calculateEMA prices period =
     (let multiplier = js_div (Num 2) (Num (of_int (period + 1)));
          first = js_nth prices 0
      in first # ema_loop multiplier first (tl prices))"

record macd_lines =
  macd :: "jsnum list"
  signal :: "jsnum list"
  histogram :: "jsnum list"

definition zip_sub :: "jsnum list \<Rightarrow> jsnum list \<Rightarrow> jsnum list" where
  "zip_sub xs ys = map (\<lambda>i. js_sub (xs ! i) (js_nth ys (int i))) [0 ..< length xs]"

definition calculateMACD :: "jsnum list \<Rightarrow> macd_lines" where
  "calculateMACD prices =
     (let ema12 = calculateEMA prices 12;
          ema26 = calculateEMA prices 26;
          m = zip_sub ema12 ema26;
          s = calculateEMA m 9;
          h = zip_sub m s
      in \<lparr> macd = m, signal = s, histogram = h \<rparr>)"

record band =
  upper :: jsnum
  middle :: jsnum
  lower :: jsnum

definition sq_dev_sum :: "jsnum list \<Rightarrow> jsnum \<Rightarrow> jsnum" where
  "sq_dev_sum xs mean = foldl (\<lambda>s price. js_add s (Math_pow2 (js_sub price mean))) (Num 0) xs"

definition calculateBollingerBands :: "jsnum list \<Rightarrow> int \<Rightarrow> jsnum \<Rightarrow> band list" where
  "calculateBollingerBands prices period stdDev =
     (let ma = calculateMovingAverage prices period
      in map (\<lambda>i. if int i < period - 1
                   then \<lparr> upper = js_nth prices (int i), middle = js_nth prices (int i),
                          lower = js_nth prices (int i) \<rparr>
                   else
                     let slice = js_slice prices (int i - period + 1) (int i + 1);
                         mean = js_nth ma (int i);
                         variance = js_div (sq_dev_sum slice mean) (Num (of_int period));
                         standardDeviation = Math_sqrt variance
                     in \<lparr> upper = js_add mean (js_mul standardDeviation stdDev),
                          middle = mean,
                          lower = js_sub mean (js_mul standardDeviation stdDev) \<rparr>)
           [0 ..< length prices])"

section \<open>Next-day predictor\<close>

record HistoricalData =
  date :: string
  open_price :: jsnum
  high :: jsnum
  low :: jsnum
  close :: jsnum
  volume :: jsnum

text \<open>
  The filter \<^verbatim>\<open>!isNaN(price) && isFinite(price) && price > 0\<close>, which the source
  writes out in \<^verbatim>\<open>validateData\<close>, \<^verbatim>\<open>predictNextDay\<close>, \<^verbatim>\<open>generatePredictions\<close> and
  \<^verbatim>\<open>generateInvestmentRecommendations\<close>.
\<close>

definition valid_price :: "jsnum \<Rightarrow> bool" where
  "valid_price price = (\<not> isNaN price \<and> isFinite price \<and> js_gt price (Num 0))"

definition valid_volume :: "jsnum \<Rightarrow> bool" where
  "valid_volume vol = (\<not> isNaN vol \<and> isFinite vol \<and> js_ge vol (Num 0))"

definition validateData :: "jsnum list \<Rightarrow> bool" where
  "validateData data = (0 < length data \<and> list_all valid_price data)"

text \<open>\<^verbatim>\<open>historicalData[historicalData.length - 1]?.close\<close>.\<close>

definition last_close :: "HistoricalData list \<Rightarrow> jsnum" where
  "last_close historicalData =
     (case js_nth_opt historicalData (int (length historicalData) - 1) of
        None \<Rightarrow> Undef
      | Some d \<Rightarrow> close d)"

definition daily_returns :: "jsnum list \<Rightarrow> jsnum list" where
  "daily_returns prices =
     concat (map (\<lambda>i. if js_gt (js_nth prices (int i - 1)) (Num 0)
                       then [js_div (js_sub (js_nth prices (int i)) (js_nth prices (int i - 1)))
                               (js_nth prices (int i - 1))]
                       else [])
               [1 ..< length prices])"

definition calculateVolatility :: "jsnum list \<Rightarrow> jsnum" where
  "calculateVolatility prices =
     (if length prices < 2 then Num 0.02
      else
        let returns = daily_returns prices
        in if length returns = 0 then Num 0.02
           else
             let mean = js_div (js_sum returns) (Num (real (length returns)));
                 variance = js_div (sq_dev_sum returns mean) (Num (real (length returns)))
             in Math_sqrt variance)"

record features =
  priceToSMA20 :: jsnum
  priceToSMA50 :: jsnum
  smaRatio :: jsnum
  rsi :: jsnum
  macdSignal :: jsnum
  bollingerPosition :: jsnum
  volumeRatio :: jsnum
  momentum :: jsnum
  volatility :: jsnum

definition extract_features :: "jsnum list \<Rightarrow> jsnum list \<Rightarrow> features" where
  "extract_features prices volumes =
     (let sma20 = calculateMovingAverage prices 20;
          sma50 = calculateMovingAverage prices 50;
          rsi14 = calculateRSI prices 14;
          m = calculateMACD prices;
          bollinger = calculateBollingerBands prices 20 (Num 2);
          lastIndex = int (length prices) - 1;
          currentPrice = js_nth prices lastIndex;
          lastVolume = js_nth volumes (int (length volumes) - 1)
      in \<lparr> priceToSMA20 =
             (if js_gt (js_nth sma20 lastIndex) (Num 0)
              then js_div currentPrice (js_nth sma20 lastIndex) else Num 1),
           priceToSMA50 =
             (if js_gt (js_nth sma50 lastIndex) (Num 0)
              then js_div currentPrice (js_nth sma50 lastIndex) else Num 1),
           smaRatio =
             (if js_gt (js_nth sma50 lastIndex) (Num 0)
              then js_div (js_nth sma20 lastIndex) (js_nth sma50 lastIndex) else Num 1),
           rsi =
             (if isFinite (js_nth rsi14 lastIndex)
              then js_div (js_nth rsi14 lastIndex) (Num 100) else Num 0.5),
           macdSignal =
             (if js_gt (js_nth (macd m) lastIndex) (js_nth (signal m) lastIndex)
              then Num 1 else Num (- 1)),
           bollingerPosition =
             (case js_nth_opt bollinger lastIndex of
                None \<Rightarrow> Num 0.5
              | Some b \<Rightarrow>
                  if js_gt (js_sub (upper b) (lower b)) (Num 0)
                  then js_div (js_sub currentPrice (lower b)) (js_sub (upper b) (lower b))
                  else Num 0.5),
           volumeRatio =
             (if 20 < length volumes \<and> js_gt lastVolume (Num 0)
              then js_div lastVolume (js_div (js_sum (js_slice_from volumes (- 20))) (Num 20))
              else Num 1),
           momentum =
             (if 10 < length prices \<and> js_gt (js_nth prices (lastIndex - 10)) (Num 0)
              then js_div (js_sub (js_nth prices lastIndex) (js_nth prices (lastIndex - 10)))
                     (js_nth prices (lastIndex - 10))
              else Num 0),
           volatility = calculateVolatility (js_slice_from prices (- 20)) \<rparr>)"

definition weights :: features where
  "weights =
     \<lparr> priceToSMA20 = Num 0.18, priceToSMA50 = Num 0.15, smaRatio = Num 0.20,
       rsi = Num (- 0.10), macdSignal = Num 0.12, bollingerPosition = Num (- 0.08),
       volumeRatio = Num 0.08, momentum = Num 0.28, volatility = Num (- 0.09) \<rparr>"

text \<open>\<^verbatim>\<open>Object.entries(features)\<close>, each value beside its weight, in insertion order.\<close>

definition feature_entries :: "features \<Rightarrow> (jsnum \<times> jsnum) list" where
  "feature_entries f =
     [(priceToSMA20 f, priceToSMA20 weights), (priceToSMA50 f, priceToSMA50 weights),
      (smaRatio f, smaRatio weights), (rsi f, rsi weights),
      (macdSignal f, macdSignal weights), (bollingerPosition f, bollingerPosition weights),
      (volumeRatio f, volumeRatio weights), (momentum f, momentum weights),
      (volatility f, volatility weights)]"

definition weighted_sum :: "(jsnum \<times> jsnum) list \<Rightarrow> jsnum" where
  "weighted_sum entries =
     foldl (\<lambda>prediction (v, w). if isFinite v then js_add prediction (js_mul v w) else prediction)
       (Num 0) entries"

text \<open>
  Lines 168 to 179: the squashed change, the noise drawn from \<^verbatim>\<open>Math.random()\<close> (here the
  argument \<open>r\<close>) and the clamp.
\<close>

definition bounded_prediction :: "jsnum \<Rightarrow> jsnum \<Rightarrow> real \<Rightarrow> jsnum" where
  "bounded_prediction currentPrice prediction r =
     (let changePercent = js_mul (Math_tanh prediction) (Num 0.04);
          predictedPrice = js_mul currentPrice (js_add (Num 1) changePercent);
          noise = js_mul (js_sub (Num r) (Num 0.5)) (Num 0.008);
          finalPrediction = js_mul predictedPrice (js_add (Num 1) noise);
          minPrice = js_mul currentPrice (Num 0.92);
          maxPrice = js_mul currentPrice (Num 1.08)
      in Math_max minPrice (Math_min maxPrice finalPrediction))"

text \<open>
  \<^verbatim>\<open>Math.random\<close> is a source of reals indexed by the number of draws made so far; a
  function that may draw takes that number and returns it updated.
\<close>

type_synonym random_source = "nat \<Rightarrow> real"

text \<open>
  \<^verbatim>\<open>predictNextDay\<close>. The two early returns of the long path are the \<open>else\<close>
  branches here: the source leaves when \<^verbatim>\<open>!this.validateData(prices)\<close> and when
  \<^verbatim>\<open>!currentPrice || isNaN(currentPrice) || currentPrice <= 0\<close>, the model goes on when the
  opposite holds. The source also computes \<^verbatim>\<open>ema12\<close> and never reads it.
\<close>

definition predictNextDay :: "HistoricalData list \<Rightarrow> random_source \<Rightarrow> nat \<Rightarrow> jsnum \<times> nat" where
  "predictNextDay historicalData rnd k =
     (if length historicalData < 50 then
        (let lastPrice = last_close historicalData
         in (if truthy lastPrice \<and> \<not> isNaN lastPrice then lastPrice else Num 100, k))
      else
        let prices = filter valid_price (map close historicalData)
        in if validateData prices then
             (let volumes = filter valid_volume (map volume historicalData);
                  lastIndex = int (length prices) - 1;
                  currentPrice = js_nth prices lastIndex
              in if truthy currentPrice \<and> \<not> isNaN currentPrice \<and> \<not> js_le currentPrice (Num 0) then
                   (bounded_prediction currentPrice
                      (weighted_sum (feature_entries (extract_features prices volumes))) (rnd k),
                    Suc k)
                 else (js_or (last_close historicalData) (Num 100), k))
           else (js_or (last_close historicalData) (Num 100), k))"

section \<open>Backtest\<close>

record PredictionData =
  p_date :: string
  actual :: jsnum
  predicted :: jsnum
  p_confidence :: jsnum

datatype js_error = TypeError

definition relative_error_sum :: "PredictionData list \<Rightarrow> jsnum" where
  "relative_error_sum ps =
     foldl (\<lambda>s p. js_add s (js_div (Math_abs (js_sub (actual p) (predicted p))) (actual p)))
       (Num 0) ps"

definition entry_confidence :: "PredictionData list \<Rightarrow> jsnum" where
  "entry_confidence predictions =
     (let recentPredictions = js_slice_from predictions (- 10);
          avgError =
            (if 0 < length recentPredictions
             then js_div (relative_error_sum recentPredictions)
                    (Num (real (length recentPredictions)))
             else Num 0.02)
      in Math_max (Num 0.65) (Math_min (Num 0.95) (js_sub (Num 1) (js_mul avgError (Num 8)))))"

text \<open>
  The body of the loop, for the indices still to visit. Reading \<^verbatim>\<open>.date\<close> of a bar that
  is not there would raise a TypeError.
\<close>

fun gp_loop ::
  "HistoricalData list \<Rightarrow> jsnum list \<Rightarrow> random_source \<Rightarrow> nat list \<Rightarrow>
   PredictionData list \<times> nat \<Rightarrow> js_error + PredictionData list \<times> nat" where
  "gp_loop historicalData actualPrices rnd [] st = Inr st"
| "gp_loop historicalData actualPrices rnd (i # rest) (predictions, k) =
     (let dataUpToPoint = js_slice historicalData 0 (int i);
          pk = predictNextDay dataUpToPoint rnd k;
          actualv = js_nth actualPrices (int i)
      in if \<not> isNaN actualv \<and> \<not> isNaN (fst pk) \<and> js_gt actualv (Num 0) \<and> js_gt (fst pk) (Num 0)
         then
           (case js_nth_opt historicalData (int i) of
              None \<Rightarrow> Inl TypeError
            | Some bar \<Rightarrow>
                gp_loop historicalData actualPrices rnd rest
                  (predictions @
                     [\<lparr> p_date = date bar, actual = actualv, predicted = fst pk,
                        p_confidence = entry_confidence predictions \<rparr>],
                   snd pk))
         else gp_loop historicalData actualPrices rnd rest (predictions, snd pk))"

definition generatePredictions ::
  "HistoricalData list \<Rightarrow> int \<Rightarrow> random_source \<Rightarrow> nat \<Rightarrow> js_error + PredictionData list \<times> nat" where
  "generatePredictions historicalData days rnd k =
     (let actualPrices = filter valid_price (map close historicalData)
      in if length actualPrices < 50 then Inr ([], k)
         else
           let startIndex = max 50 (int (length historicalData) - days)
           in gp_loop historicalData actualPrices rnd
                [nat startIndex ..< length historicalData] ([], k))"

section \<open>Recommendation engine\<close>

datatype category = BUY | SELL | HOLD

record InvestmentRecommendation =
  symbol :: string
  name :: string
  recommendation :: category
  targetPrice :: jsnum
  confidence :: jsnum
  reason :: string

text \<open>\<^verbatim>\<open>s.replace(pat, rep)\<close> with a string pattern: the first occurrence only.\<close>

fun js_replace :: "string \<Rightarrow> string \<Rightarrow> string \<Rightarrow> string" where
  "js_replace pat rep [] = (if pat = [] then rep else [])"
| "js_replace pat rep (c # cs) =
     (if take (length pat) (c # cs) = pat then rep @ drop (length pat) (c # cs)
      else c # js_replace pat rep cs)"

fun js_join :: "string \<Rightarrow> string list \<Rightarrow> string" where
  "js_join sep [] = []"
| "js_join sep [x] = x"
| "js_join sep (x # y # zs) = x @ sep @ js_join sep (y # zs)"

text \<open>
  The five signal groups. Each takes the score and the reasons collected so far and
  returns them updated.
\<close>

type_synonym tally = "int \<times> string list"

definition score_prediction :: "jsnum \<Rightarrow> tally \<Rightarrow> tally" where
  "score_prediction priceChange t =
     (case t of (score, reasons) \<Rightarrow>
        if js_gt priceChange (Num 0.025)
        then (score + 4, reasons @ [''Strong AI price prediction (+2.5%+)''])
        else if js_gt priceChange (Num 0.01)
        then (score + 2, reasons @ [''Positive AI price prediction''])
        else if js_lt priceChange (Num (- 0.025))
        then (score - 4, reasons @ [''Negative AI price prediction (-2.5%+)''])
        else if js_lt priceChange (Num (- 0.01))
        then (score - 2, reasons @ [''Weak AI price prediction''])
        else (score, reasons))"

definition score_trend :: "jsnum \<Rightarrow> jsnum \<Rightarrow> jsnum \<Rightarrow> tally \<Rightarrow> tally" where
  "score_trend s20 s50 currentPrice t =
     (case t of (score, reasons) \<Rightarrow>
        if js_gt s20 s50 \<and> js_gt currentPrice s20
        then (score + 3, reasons @ [''Bullish trend (above moving averages)''])
        else if js_lt s20 s50 \<and> js_lt currentPrice s20
        then (score - 3, reasons @ [''Bearish trend (below moving averages)''])
        else (score, reasons))"

definition score_rsi :: "jsnum \<Rightarrow> tally \<Rightarrow> tally" where
  "score_rsi currentRSI t =
     (case t of (score, reasons) \<Rightarrow>
        if js_lt currentRSI (Num 30)
        then (score + 2, reasons @ [''Oversold condition (RSI < 30)''])
        else if js_gt currentRSI (Num 70)
        then (score - 2, reasons @ [''Overbought condition (RSI > 70)''])
        else if js_ge currentRSI (Num 40) \<and> js_le currentRSI (Num 60)
        then (score + 1, reasons @ [''Neutral RSI levels''])
        else (score, reasons))"

definition score_macd :: "jsnum \<Rightarrow> jsnum \<Rightarrow> tally \<Rightarrow> tally" where
  "score_macd m s t =
     (case t of (score, reasons) \<Rightarrow>
        if js_gt m s
        then (score + 1, reasons @ [''Positive MACD crossover''])
        else (score - 1, reasons @ [''Negative MACD signal'']))"

definition score_momentum :: "jsnum list \<Rightarrow> tally \<Rightarrow> tally" where
  "score_momentum prices t =
     (case t of (score, reasons) \<Rightarrow>
        if 10 < length prices then
          (let lastIndex = int (length prices) - 1;
               currentPrice = js_nth prices lastIndex;
               mom = js_div (js_sub currentPrice (js_nth prices (lastIndex - 10)))
                       (js_nth prices (lastIndex - 10))
           in if js_gt mom (Num 0.08)
              then (score + 2, reasons @ [''Strong positive momentum (8%+)''])
              else if js_gt mom (Num 0.03)
              then (score + 1, reasons @ [''Positive momentum''])
              else if js_lt mom (Num (- 0.08))
              then (score - 2, reasons @ [''Strong negative momentum (-8%+)''])
              else if js_lt mom (Num (- 0.03))
              then (score - 1, reasons @ [''Negative momentum''])
              else (score, reasons))
        else (score, reasons))"

definition technical_tally :: "jsnum list \<Rightarrow> jsnum \<Rightarrow> tally" where
  "technical_tally prices predictedPrice =
     (let lastIndex = int (length prices) - 1;
          currentPrice = js_nth prices lastIndex;
          sma20 = calculateMovingAverage prices 20;
          sma50 = calculateMovingAverage prices 50;
          rsi14 = calculateRSI prices 14;
          m = calculateMACD prices;
          priceChange = js_div (js_sub predictedPrice currentPrice) currentPrice
      in score_momentum prices
           (score_macd (js_nth (macd m) lastIndex) (js_nth (signal m) lastIndex)
              (score_rsi (js_nth rsi14 lastIndex)
                 (score_trend (js_nth sma20 lastIndex) (js_nth sma50 lastIndex) currentPrice
                    (score_prediction priceChange (0, []))))))"

text \<open>Lines 343 to 356: the category and the confidence of a score.\<close>

definition decide :: "int \<Rightarrow> category \<times> jsnum" where
  "decide score =
     (if 5 \<le> score
      then (BUY, Math_min (Num 0.92) (js_add (Num 0.75) (js_mul (Num (of_int score)) (Num 0.03))))
      else if score \<le> - 4
      then (SELL, Math_min (Num 0.88) (js_add (Num 0.70) (js_mul (Num (of_int \<bar>score\<bar>)) (Num 0.03))))
      else (HOLD, js_add (Num 0.70) (js_mul (Num (of_int \<bar>score\<bar>)) (Num 0.02))))"

definition reason_text :: "string list \<Rightarrow> string" where
  "reason_text reasons =
     (let joined = js_join '', '' (js_slice reasons 0 2)
      in if joined = [] then ''Mixed technical signals'' else joined)"

definition degenerate :: "string \<Rightarrow> jsnum \<Rightarrow> string \<Rightarrow> InvestmentRecommendation" where
  "degenerate symb target why =
     \<lparr> symbol = symb, name = js_replace ''.NS'' [] symb, recommendation = HOLD,
       targetPrice = target, confidence = Num 0.5, reason = why \<rparr>"

text \<open>The callback of \<^verbatim>\<open>stocksData.map\<close>: one recommendation for one stock.\<close>

definition recommend ::
  "string \<times> HistoricalData list \<Rightarrow> random_source \<Rightarrow> nat \<Rightarrow> InvestmentRecommendation \<times> nat" where
  "recommend stock rnd k =
     (case stock of (symb, data) \<Rightarrow>
        if length data < 50 then
          (let lastPrice = last_close data
           in (degenerate symb (if truthy lastPrice \<and> \<not> isNaN lastPrice then lastPrice else Num 100)
                 ''Insufficient data for analysis'', k))
        else
          let prices = filter valid_price (map close data)
          in if validateData prices then
               (let pk = predictNextDay data rnd k;
                    t = technical_tally prices (fst pk);
                    d = decide (fst t)
                in (\<lparr> symbol = symb, name = js_replace ''.NS'' [] symb, recommendation = fst d,
                      targetPrice = Math_max (fst pk) (Num 1),
                      confidence = Math_min (snd d) (Num 0.95),
                      reason = reason_text (snd t) \<rparr>,
                    snd pk))
             else (degenerate symb (Num 100) ''Invalid price data'', k))"

fun map_random ::
  "('a \<Rightarrow> random_source \<Rightarrow> nat \<Rightarrow> 'b \<times> nat) \<Rightarrow> 'a list \<Rightarrow> random_source \<Rightarrow> nat \<Rightarrow> 'b list \<times> nat" where
  "map_random f [] rnd k = ([], k)"
| "map_random f (x # xs) rnd k =
     (let yk = f x rnd k; rest = map_random f xs rnd (snd yk)
      in (fst yk # fst rest, snd rest))"

definition priorityOrder :: "category \<Rightarrow> int" where
  "priorityOrder c = (case c of BUY \<Rightarrow> 3 | HOLD \<Rightarrow> 2 | SELL \<Rightarrow> 1)"

text \<open>The comparator handed to \<^verbatim>\<open>sort\<close>.\<close>

definition compare_recs :: "InvestmentRecommendation \<Rightarrow> InvestmentRecommendation \<Rightarrow> jsnum" where
  "compare_recs a b =
     (let aPriority = priorityOrder (recommendation a);
          bPriority = priorityOrder (recommendation b)
      in if aPriority \<noteq> bPriority then Num (of_int (bPriority - aPriority))
         else js_sub (confidence b) (confidence a))"

text \<open>
  \<^verbatim>\<open>Array.prototype.sort\<close> belongs to the JavaScript runtime. ECMAScript asks for a
  stable sort; it is modelled by insertion from the right, where an element goes in
  front of the first one that the comparator does not put before it.
\<close>

fun js_insert :: "('a \<Rightarrow> 'a \<Rightarrow> jsnum) \<Rightarrow> 'a \<Rightarrow> 'a list \<Rightarrow> 'a list" where
  "js_insert cmp x [] = [x]"
| "js_insert cmp x (y # ys) =
     (if js_gt (cmp x y) (Num 0) then y # js_insert cmp x ys else x # y # ys)"

definition js_sort :: "('a \<Rightarrow> 'a \<Rightarrow> jsnum) \<Rightarrow> 'a list \<Rightarrow> 'a list" where
  "js_sort cmp xs = foldr (js_insert cmp) xs []"

definition generateInvestmentRecommendations ::
  "(string \<times> HistoricalData list) list \<Rightarrow> random_source \<Rightarrow> nat \<Rightarrow>
   InvestmentRecommendation list \<times> nat" where
  "generateInvestmentRecommendations stocksData rnd k =
     (let rk = map_random recommend stocksData rnd k
      in (js_sort compare_recs (fst rk), snd rk))"

section \<open>Notions of the specification and sample series\<close>

text \<open>The \<open>period\<close> prices that end at index \<open>i\<close> (none when \<open>period\<close> is not positive).\<close>

definition trailing_window :: "jsnum list \<Rightarrow> nat \<Rightarrow> int \<Rightarrow> jsnum list" where
  "trailing_window prices i period = take (nat period) (drop (nat (int i + 1 - period)) prices)"

text \<open>Mean and population standard deviation (divisor: the number of values) of reals.\<close>

definition population_mean :: "real list \<Rightarrow> real" where
  "population_mean w = sum_list w / real (length w)"

definition population_sd :: "real list \<Rightarrow> real" where
  "population_sd w =
     sqrt ((\<Sum>x\<leftarrow>w. (x - population_mean w)\<^sup>2) / real (length w))"

text \<open>A finite value is in range when it is below the magnitude that overflows.\<close>

fun in_range :: "jsnum \<Rightarrow> bool" where
  "in_range (Num x) = (\<bar>x\<bar> < overflow_threshold)"
| "in_range _ = True"

text \<open>A weight of magnitude at most 1.\<close>

fun small_weight :: "jsnum \<Rightarrow> bool" where
  "small_weight (Num w) = (\<bar>w\<bar> \<le> 1)"
| "small_weight _ = False"

text \<open>
  The ranks the specification gives the categories, and its order of the recommendation
  list: the higher rank first, and within one category the higher confidence first.
\<close>

fun spec_rank :: "category \<Rightarrow> nat" where
  "spec_rank BUY = 3"
| "spec_rank HOLD = 2"
| "spec_rank SELL = 1"

definition ranks_before :: "InvestmentRecommendation \<Rightarrow> InvestmentRecommendation \<Rightarrow> bool" where
  "ranks_before a b =
     (spec_rank (recommendation b) < spec_rank (recommendation a)
      \<or> (recommendation a = recommendation b \<and> js_le (confidence b) (confidence a)))"

text \<open>The confidence band of each category on the path that scores a stock.\<close>

definition confidence_in_band :: "InvestmentRecommendation \<Rightarrow> bool" where
  "confidence_in_band r =
     (\<exists>c. confidence r = Num c
        \<and> (case recommendation r of
              BUY \<Rightarrow> 0.90 \<le> c \<and> c \<le> 0.92
            | SELL \<Rightarrow> 0.82 \<le> c \<and> c \<le> 0.88
            | HOLD \<Rightarrow> 0.70 \<le> c \<and> c \<le> 0.78))"

definition flat_bar :: HistoricalData where
  "flat_bar =
     \<lparr> date = ''2024-01-01'', open_price = Num 100, high = Num 100, low = Num 100,
       close = Num 100, volume = Num 1000 \<rparr>"

definition bar_closing :: "jsnum \<Rightarrow> HistoricalData" where
  "bar_closing c = flat_bar \<lparr> close := c \<rparr>"

text \<open>Fifty bars that close at infinity, then fifty-one bars that close at 100.\<close>

definition inf_then_flat :: "HistoricalData list" where
  "inf_then_flat = replicate 50 (bar_closing PInf) @ replicate 51 flat_bar"

section \<open>Properties of the arithmetic\<close>

lemma overflow_threshold_large: "10 ^ 308 < overflow_threshold"
  by (simp add: overflow_threshold_def)

lemma overflow_threshold_pos: "0 < overflow_threshold"
proof -
  have "(0::real) < 10 ^ 308" by simp
  with overflow_threshold_large show ?thesis by linarith
qed

lemma overflow_in_range: "\<bar>x\<bar> < overflow_threshold \<Longrightarrow> overflow x = Num x"
  by (auto simp: overflow_def)

lemma overflow_small: "\<bar>x\<bar> \<le> 10 ^ 308 \<Longrightarrow> overflow x = Num x"
  using overflow_threshold_large by (intro overflow_in_range) linarith

lemma overflow_tiny: "\<bar>x\<bar> \<le> 2 \<Longrightarrow> overflow x = Num x"
  by (rule overflow_small) simp

lemma overflow_not_NaN: "\<not> isNaN (overflow x)"
  by (simp add: overflow_def)

lemma in_range_overflow: "in_range (overflow x)"
  by (auto simp: overflow_def)

lemma js_gt_overflow: "js_gt (overflow x) (Num 0) \<longleftrightarrow> 0 < x"
  using overflow_threshold_pos by (auto simp: overflow_def js_gt_def)

lemma js_gt_zero_iff: "js_gt x (Num 0) \<longleftrightarrow> x = PInf \<or> (\<exists>p. x = Num p \<and> 0 < p)"
  by (cases x) (simp_all add: js_gt_def)

lemma js_le_overflow_mono: "x \<le> y \<Longrightarrow> js_le (overflow x) (overflow y)"
  using overflow_threshold_pos by (auto simp: overflow_def)

lemma in_range_js_div: "in_range (js_div a b)"
  using overflow_threshold_pos
  by (cases a; cases b) (simp_all add: in_range_overflow)

lemma sqrt_le_max: "0 \<le> x \<Longrightarrow> sqrt x \<le> max 1 x"
proof (cases "x \<le> 1")
  case True
  then have "sqrt x \<le> 1" by simp
  then show ?thesis by simp
next
  case False
  then have "1 \<le> sqrt x" by simp
  then have "sqrt x * 1 \<le> sqrt x * sqrt x"
    by (intro mult_left_mono) simp_all
  moreover assume "0 \<le> x"
  ultimately have "sqrt x \<le> x" by simp
  then show ?thesis by simp
qed

lemma in_range_Math_sqrt: "in_range x \<Longrightarrow> in_range (Math_sqrt x)"
proof (cases x)
  case (Num a)
  assume "in_range x"
  with Num have a: "\<bar>a\<bar> < overflow_threshold" by simp
  show ?thesis
  proof (cases "0 \<le> a")
    case True
    then have "sqrt a \<le> max 1 a" by (rule sqrt_le_max)
    moreover have "(1::real) < overflow_threshold"
      by (simp add: overflow_threshold_def)
    then have "max 1 a < overflow_threshold"
      using a by simp
    ultimately have "sqrt a < overflow_threshold"
      by (rule order_le_less_trans)
    then have "\<bar>sqrt a\<bar> < overflow_threshold"
      using True by simp
    with Num True show ?thesis by simp
  next
    case False
    with Num show ?thesis by simp
  qed
qed simp_all

section \<open>Properties of the indicator library\<close>

lemma js_nth_nat: "n < length xs \<Longrightarrow> js_nth xs (int n) = xs ! n"
  by (simp add: js_nth_def)

lemma length_calculateMovingAverage: "length (calculateMovingAverage data window) = length data"
  by (simp add: calculateMovingAverage_def)

lemma length_rsi_gains: "length (rsi_gains prices) = length prices - 1"
  by (simp add: rsi_gains_def)

lemma length_calculateRSI: "length (calculateRSI prices period) = length prices - 1"
  by (simp add: calculateRSI_def Let_def length_rsi_gains)

lemma length_ema_loop: "length (ema_loop m prev ps) = length ps"
  by (induction ps arbitrary: prev) (simp_all add: Let_def)

lemma length_calculateEMA:
  "length (calculateEMA prices period) = (if prices = [] then 1 else length prices)"
  by (cases prices) (simp_all add: calculateEMA_def Let_def length_ema_loop)

lemma length_zip_sub: "length (zip_sub xs ys) = length xs"
  by (simp add: zip_sub_def)

lemma length_calculateMACD:
  "prices \<noteq> [] \<Longrightarrow> length (macd (calculateMACD prices)) = length prices
     \<and> length (signal (calculateMACD prices)) = length prices
     \<and> length (histogram (calculateMACD prices)) = length prices"
proof -
  assume ne: "prices \<noteq> []"
  let ?m = "zip_sub (calculateEMA prices 12) (calculateEMA prices 26)"
  have m: "length ?m = length prices"
    using ne by (simp add: length_zip_sub length_calculateEMA)
  then have "?m \<noteq> []" using ne by auto
  then have s: "length (calculateEMA ?m 9) = length prices"
    using m by (simp add: length_calculateEMA)
  show ?thesis
    using m s by (simp add: calculateMACD_def Let_def length_zip_sub)
qed

lemma length_calculateBollingerBands:
  "length (calculateBollingerBands prices period stdDev) = length prices"
  by (simp add: calculateBollingerBands_def Let_def)

lemma rsi_last_undefined:
  "js_nth (calculateRSI prices period) (int (length prices) - 1) = Undef"
  by (cases prices) (simp_all add: js_nth_def length_calculateRSI)

text \<open>
  C6. For a price array of length \<open>n \<ge> 1\<close> and any period, the RSI array has \<open>n - 1\<close>
  entries, as many as the gains; gain \<open>i\<close> is the positive part of the step from price
  \<open>i\<close> to price \<open>i + 1\<close>; and every entry among the first \<open>period - 1\<close> is exactly 50.
\<close>

theorem calculateRSI_shape:
  assumes "1 \<le> length prices"
  shows "int (length (calculateRSI prices period)) = int (length prices) - 1
    \<and> length (rsi_gains prices) = length (calculateRSI prices period)
    \<and> (i < length (calculateRSI prices period) \<longrightarrow>
         rsi_gains prices ! i =
           (let change = js_sub (prices ! (i + 1)) (prices ! i)
            in if js_gt change (Num 0) then change else Num 0))
    \<and> (i < length (calculateRSI prices period) \<and> int i < period - 1 \<longrightarrow>
         calculateRSI prices period ! i = Num 50)"
proof -
  have len: "length (calculateRSI prices period) = length prices - 1"
    by (rule length_calculateRSI)
  have g: "rsi_gains prices ! i =
           (let change = js_sub (prices ! (i + 1)) (prices ! i)
            in if js_gt change (Num 0) then change else Num 0)" if "i < length prices - 1"
  proof -
    have a: "js_nth prices (int (1 + i)) = prices ! (i + 1)"
      using that js_nth_nat [of "1 + i" prices] by simp
    have b: "js_nth prices (int (1 + i) - 1) = prices ! i"
      using that js_nth_nat [of i prices] by simp
    have "rsi_gains prices ! i =
       (let change = js_sub (js_nth prices (int (1 + i))) (js_nth prices (int (1 + i) - 1))
        in if js_gt change (Num 0) then change else Num 0)"
      unfolding rsi_gains_def using that by (subst nth_map_upt) simp_all
    then show ?thesis by (simp only: a b)
  qed
  have f: "calculateRSI prices period ! i = Num 50" if "i < length prices - 1" "int i < period - 1"
    using that by (simp add: calculateRSI_def Let_def length_rsi_gains)
  show ?thesis using assms len g f by (simp add: length_rsi_gains)
qed

theorem calculateRSI_shape_witness:
  "1 \<le> length [Num 1, Num 2, Num 3]
   \<and> int (length (calculateRSI [Num 1, Num 2, Num 3] 2)) = 2
   \<and> rsi_gains [Num 1, Num 2, Num 3] ! 0 = Num 1
   \<and> calculateRSI [Num 1, Num 2, Num 3] 2 ! 0 = Num 50"
  using calculateRSI_shape [of "[Num 1, Num 2, Num 3]" 2 0]
  by (auto simp: Let_def js_sub_def js_gt_def overflow_small)

text \<open>
  C5. The claim asks of every indicator an array as long as the prices. The RSI array is
  one entry short: on three prices it has two entries, and the read \<^verbatim>\<open>rsi[lastIndex]\<close>
  that both callers make at the last price index finds nothing.
\<close>

theorem rsi_shorter_than_prices:
  "calculateRSI [Num 1, Num 2, Num 3] 14 = [Num 50, Num 50]
   \<and> js_nth (calculateRSI [Num 1, Num 2, Num 3] 14) (int (length [Num 1, Num 2, Num 3]) - 1) = Undef"
  by (simp add: calculateRSI_def rsi_gains_def rsi_losses_def Let_def upt_rec js_nth_def)

lemma js_slice_trailing:
  assumes "i < length prices" "period - 1 \<le> int i"
  shows "js_slice prices (int i - period + 1) (int i + 1) = trailing_window prices i period"
proof -
  let ?from = "nat (int i + 1 - period)"
  have e: "js_rel (length prices) (int i + 1) = i + 1"
    using assms by (simp add: js_rel_def)
  have f: "js_rel (length prices) (int i - period + 1) = min ?from (length prices)"
    using assms by (simp add: js_rel_def algebra_simps)
  show ?thesis
  proof (cases "?from \<le> length prices")
    case True
    then have "min ?from (length prices) = ?from" by simp
    moreover have "i + 1 - ?from = nat period" using assms by arith
    ultimately show ?thesis
      by (simp add: js_slice_def Let_def e f trailing_window_def)
  next
    case False
    then have "period \<le> 0" using assms by arith
    with False show ?thesis
      by (simp add: js_slice_def Let_def e f trailing_window_def)
  qed
qed

lemma bollinger_band_js:
  assumes "i < length prices" "period - 1 \<le> int i"
  shows "(let b = calculateBollingerBands prices period stdDev ! i;
              sma = calculateMovingAverage prices period ! i;
              w = trailing_window prices i period;
              sd = Math_sqrt (js_div (sq_dev_sum w sma) (Num (of_int period)))
          in sma = js_div (js_sum w) (Num (of_int period))
           \<and> middle b = sma
           \<and> upper b = js_add sma (js_mul sd stdDev)
           \<and> lower b = js_sub sma (js_mul sd stdDev))"
proof -
  have s: "js_slice prices (int i - period + 1) (int i + 1) = trailing_window prices i period"
    using assms by (rule js_slice_trailing)
  have n: "js_nth (calculateMovingAverage prices period) (int i) = calculateMovingAverage prices period ! i"
    using assms by (simp add: js_nth_def length_calculateMovingAverage)
  have m: "calculateMovingAverage prices period ! i = js_div (js_sum (trailing_window prices i period)) (Num (of_int period))"
    using assms by (simp add: calculateMovingAverage_def s)
  have b: "calculateBollingerBands prices period stdDev ! i =
     (let mean = calculateMovingAverage prices period ! i;
          sd = Math_sqrt (js_div (sq_dev_sum (trailing_window prices i period) mean) (Num (of_int period)))
      in \<lparr> upper = js_add mean (js_mul sd stdDev), middle = mean, lower = js_sub mean (js_mul sd stdDev) \<rparr>)"
    using assms by (simp add: calculateBollingerBands_def Let_def s n)
  show ?thesis using m by (simp add: b Let_def)
qed

lemma sum_list_abs_bound:
  "\<forall>x \<in> set xs. \<bar>x\<bar> \<le> B \<Longrightarrow> (\<Sum>x\<leftarrow>xs. \<bar>x\<bar>) \<le> real (length xs) * B" for B :: real
  by (induction xs) (simp_all add: algebra_simps)

lemma sum_list_abs_le: "\<bar>sum_list xs\<bar> \<le> (\<Sum>x\<leftarrow>xs. \<bar>x\<bar>)" for xs :: "real list"
  by (induction xs) simp_all

lemma foldl_js_add_Num:
  "\<bar>a\<bar> + (\<Sum>x\<leftarrow>xs. \<bar>x\<bar>) < overflow_threshold \<Longrightarrow>
   foldl js_add (Num a) (map Num xs) = Num (a + sum_list xs)"
proof (induction xs arbitrary: a)
  case Nil
  then show ?case by simp
next
  case (Cons x xs)
  have nn: "0 \<le> (\<Sum>x\<leftarrow>xs. \<bar>x\<bar>)"
    by (induction xs) simp_all
  from Cons.prems nn have "\<bar>a + x\<bar> < overflow_threshold" by simp
  then have step: "overflow (a + x) = Num (a + x)"
    by (rule overflow_in_range)
  from Cons.prems have "\<bar>a + x\<bar> + (\<Sum>x\<leftarrow>xs. \<bar>x\<bar>) < overflow_threshold" by simp
  from Cons.IH [OF this] show ?case
    by (simp add: step add.assoc)
qed

lemma js_sum_Num:
  "(\<Sum>x\<leftarrow>xs. \<bar>x\<bar>) < overflow_threshold \<Longrightarrow> js_sum (map Num xs) = Num (sum_list xs)"
  using foldl_js_add_Num [of 0 xs] by (simp add: js_sum_def)

lemma sum_list_squares_bound:
  "\<forall>x \<in> set xs. \<bar>x - m\<bar> \<le> D \<Longrightarrow> (\<Sum>x\<leftarrow>xs. (x - m)\<^sup>2) \<le> real (length xs) * D\<^sup>2"
  for m :: real
proof (induction xs)
  case Nil
  then show ?case by simp
next
  case (Cons x xs)
  then have "\<bar>x - m\<bar> \<le> D" by simp
  then have "(x - m)\<^sup>2 \<le> D\<^sup>2"
    by (metis abs_le_square_iff abs_ge_zero abs_of_nonneg order_trans)
  with Cons show ?case by (simp add: algebra_simps)
qed

lemma sum_squares_nonneg: "0 \<le> (\<Sum>x\<leftarrow>xs. (x - m)\<^sup>2)" for m :: real
  by (induction xs) simp_all

lemma foldl_sq_dev_Num:
  assumes "\<forall>x \<in> set xs. \<bar>x - m\<bar> < overflow_threshold"
    and "0 \<le> a" and "a + (\<Sum>x\<leftarrow>xs. (x - m)\<^sup>2) < overflow_threshold"
  shows "foldl (\<lambda>s price. js_add s (Math_pow2 (js_sub price (Num m)))) (Num a) (map Num xs)
     = Num (a + (\<Sum>x\<leftarrow>xs. (x - m)\<^sup>2))"
  using assms
proof (induction xs arbitrary: a)
  case Nil
  then show ?case by simp
next
  case (Cons x xs)
  have nn: "0 \<le> (\<Sum>x\<leftarrow>xs. (x - m)\<^sup>2)" by (rule sum_squares_nonneg)
  from Cons.prems(1) have sub: "overflow (x - m) = Num (x - m)"
    by (simp add: overflow_in_range)
  have sq0: "0 \<le> (x - m)\<^sup>2" by simp
  from Cons.prems(2,3) nn sq0 have "\<bar>(x - m) * (x - m)\<bar> < overflow_threshold"
    by (simp add: power2_eq_square [symmetric])
  then have sq: "overflow ((x - m) * (x - m)) = Num ((x - m)\<^sup>2)"
    by (simp add: overflow_in_range power2_eq_square)
  from Cons.prems(2,3) nn sq0 have "\<bar>a + (x - m)\<^sup>2\<bar> < overflow_threshold"
    by simp
  then have add: "overflow (a + (x - m)\<^sup>2) = Num (a + (x - m)\<^sup>2)"
    by (rule overflow_in_range)
  have "foldl (\<lambda>s price. js_add s (Math_pow2 (js_sub price (Num m)))) (Num (a + (x - m)\<^sup>2))
          (map Num xs) = Num (a + (x - m)\<^sup>2 + (\<Sum>x\<leftarrow>xs. (x - m)\<^sup>2))"
    using Cons.prems sq0 by (intro Cons.IH) simp_all
  then show ?case
    by (simp add: js_sub_def sub sq add add.assoc)
qed

lemma sq_dev_sum_Num:
  assumes "\<forall>x \<in> set xs. \<bar>x - m\<bar> < overflow_threshold"
    and "(\<Sum>x\<leftarrow>xs. (x - m)\<^sup>2) < overflow_threshold"
  shows "sq_dev_sum (map Num xs) (Num m) = Num (\<Sum>x\<leftarrow>xs. (x - m)\<^sup>2)"
  using foldl_sq_dev_Num [of xs m 0] assms by (simp add: sq_dev_sum_def)

lemma trailing_window_Num:
  "trailing_window (map Num ps) i period = map Num (take (nat period) (drop (nat (int i + 1 - period)) ps))"
  by (simp add: trailing_window_def take_map drop_map)

lemma bollinger_band_real:
  assumes "i < length ps" "1 \<le> period" "period - 1 \<le> int i"
    and "\<forall>x \<in> set ps. \<bar>x\<bar> \<le> 10 ^ 100" "\<bar>k\<bar> \<le> 10 ^ 100" "real_of_int period \<le> 10 ^ 100"
  shows "(let w = take (nat period) (drop (nat (int i + 1 - period)) ps)
          in length w = nat period
           \<and> calculateMovingAverage (map Num ps) period ! i = Num (population_mean w)
           \<and> calculateBollingerBands (map Num ps) period (Num k) ! i =
               \<lparr> upper = Num (population_mean w + population_sd w * k),
                 middle = Num (population_mean w),
                 lower = Num (population_mean w - population_sd w * k) \<rparr>)"
proof -
  define w where "w = take (nat period) (drop (nat (int i + 1 - period)) ps)"
  define B :: real where "B = 10 ^ 100"
  define n where "n = real (length w)"
  define S where "S = (\<Sum>x\<leftarrow>w. (x - population_mean w)\<^sup>2)"
  have T: "4 * (B * B * B) < overflow_threshold" "0 < B" "1 \<le> B"
    using overflow_threshold_large by (simp_all add: B_def)
  have len: "length w = nat period"
    using assms by (simp add: w_def)
  have per: "real_of_int period = n" "n \<noteq> 0" "1 \<le> n" "n \<le> B"
    using assms(2,6) len by (simp_all add: n_def B_def)
  have wb: "\<forall>x \<in> set w. \<bar>x\<bar> \<le> B"
    using assms(4) by (auto simp: w_def B_def dest!: in_set_takeD in_set_dropD)
  have nB: "n * B \<le> B * B"
    using per T by (intro mult_right_mono) simp_all
  have BB: "B * B \<le> 4 * (B * B * B)"
  proof -
    have "B * B * 1 \<le> B * B * (4 * B)"
      using T by (intro mult_left_mono) simp_all
    then show ?thesis by (simp add: mult.assoc)
  qed
  have sabs: "(\<Sum>x\<leftarrow>w. \<bar>x\<bar>) \<le> n * B"
    unfolding n_def using wb by (rule sum_list_abs_bound)
  then have sabsT: "(\<Sum>x\<leftarrow>w. \<bar>x\<bar>) < overflow_threshold"
    using nB BB T by linarith
  have sum: "js_sum (map Num w) = Num (sum_list w)"
    using sabsT by (rule js_sum_Num)
  have "\<bar>sum_list w\<bar> \<le> n * B"
    using sum_list_abs_le [of w] sabs by linarith
  then have "\<bar>sum_list w\<bar> / n \<le> B"
    using per by (simp add: pos_divide_le_eq mult.commute)
  then have mb: "\<bar>population_mean w\<bar> \<le> B"
    using per by (simp add: population_mean_def n_def [symmetric])
  have B1B: "B \<le> B * B"
  proof -
    have "B * 1 \<le> B * B" using T by (intro mult_left_mono) simp_all
    then show ?thesis by simp
  qed
  have BT: "B < overflow_threshold"
    using B1B BB T by linarith
  have mean: "js_div (Num (sum_list w)) (Num n) = Num (population_mean w)"
    using per mb BT by (simp add: population_mean_def n_def [symmetric] overflow_in_range)
  have i': "i < length (map Num ps)" using assms(1) by simp
  note b = bollinger_band_js [OF i' assms(3), of "Num k", unfolded Let_def trailing_window_Num,
      folded w_def, unfolded per(1) sum mean]
  from b have sma: "calculateMovingAverage (map Num ps) period ! i = Num (population_mean w)"
    by simp
  have dev: "\<forall>x \<in> set w. \<bar>x - population_mean w\<bar> \<le> 2 * B"
  proof
    fix x assume "x \<in> set w"
    with wb have "\<bar>x\<bar> \<le> B" by simp
    moreover have "\<bar>x - population_mean w\<bar> \<le> \<bar>x\<bar> + \<bar>population_mean w\<bar>"
      by (rule abs_triangle_ineq4)
    ultimately show "\<bar>x - population_mean w\<bar> \<le> 2 * B"
      using mb by linarith
  qed
  have "S \<le> n * (2 * B)\<^sup>2"
    unfolding S_def n_def using dev by (rule sum_list_squares_bound)
  also have "\<dots> \<le> B * (2 * B)\<^sup>2"
    using per by (intro mult_right_mono) simp_all
  also have "\<dots> = 4 * (B * B * B)"
    by (simp add: power2_eq_square)
  finally have Sb: "S \<le> 4 * (B * B * B)" .
  have S0: "0 \<le> S"
    unfolding S_def by (rule sum_squares_nonneg)
  have devT: "\<forall>x \<in> set w. \<bar>x - population_mean w\<bar> < overflow_threshold"
  proof
    fix x assume "x \<in> set w"
    with dev have "\<bar>x - population_mean w\<bar> \<le> 2 * B" by simp
    moreover have "2 * B \<le> 4 * (B * B * B)"
    proof -
      have "B * 1 \<le> B * (B * B)"
        using T by (intro mult_left_mono) (simp_all add: mult_ge1_I)
      then show ?thesis using T(2) by simp
    qed
    ultimately show "\<bar>x - population_mean w\<bar> < overflow_threshold"
      using T by linarith
  qed
  have sq: "sq_dev_sum (map Num w) (Num (population_mean w)) = Num S"
    unfolding S_def using devT Sb T(1) by (intro sq_dev_sum_Num) (simp_all add: S_def)
  have var0: "0 \<le> S / n" using S0 per by simp
  have "S / n \<le> S"
    using S0 per by (simp add: pos_divide_le_eq mult_le_cancel_left1) 
  then have var: "overflow (S / n) = Num (S / n)"
    using var0 Sb T(1) by (intro overflow_in_range) simp
  have sdv: "sqrt (S / n) = population_sd w"
    by (simp add: population_sd_def S_def n_def)
  have "S / n \<le> (2 * B)\<^sup>2"
    using \<open>S \<le> n * (2 * B)\<^sup>2\<close> per by (simp add: pos_divide_le_eq mult.commute)
  then have s1: "sqrt (S / n) \<le> sqrt ((2 * B)\<^sup>2)"
    by (rule real_sqrt_le_mono)
  have s2: "sqrt ((2 * B)\<^sup>2) = 2 * B"
    using T(2) by (subst real_sqrt_abs) simp
  have s3: "0 \<le> sqrt (S / n)"
    using var0 by simp
  from s1 s2 s3 have sdb: "population_sd w \<le> 2 * B" "0 \<le> population_sd w"
    unfolding sdv by linarith+
  have "\<bar>population_sd w * k\<bar> \<le> (2 * B) * B"
    unfolding abs_mult using sdb assms(5) by (intro mult_mono) (simp_all add: B_def)
  then have skb: "\<bar>population_sd w * k\<bar> \<le> 2 * (B * B)" by simp
  have BB3: "B * B \<le> B * B * B"
  proof -
    have "B * B * 1 \<le> B * B * B" using T by (intro mult_left_mono) simp_all
    then show ?thesis by simp
  qed
  have sk: "overflow (population_sd w * k) = Num (population_sd w * k)"
    using skb BB3 T by (intro overflow_in_range) linarith
  have up: "overflow (population_mean w + population_sd w * k)
      = Num (population_mean w + population_sd w * k)"
    using skb mb BB3 T B1B by (intro overflow_in_range) linarith
  have lo: "overflow (population_mean w - population_sd w * k)
      = Num (population_mean w - population_sd w * k)"
    using skb mb BB3 T B1B by (intro overflow_in_range) linarith
  from b have "calculateBollingerBands (map Num ps) period (Num k) ! i =
               \<lparr> upper = Num (population_mean w + population_sd w * k),
                 middle = Num (population_mean w),
                 lower = Num (population_mean w - population_sd w * k) \<rparr>"
    using per var0 by (simp add: sma sq var sdv sk up lo js_sub_def)
  with len sma show ?thesis by (simp add: Let_def w_def)
qed

text \<open>
  C7. At every index \<open>i \<ge> period - 1\<close> of the prices, the middle band is the value of
  the moving average of that period at \<open>i\<close> (the very value read from its array), which
  is the mean of the trailing window; the upper and the lower band lie \<open>stdDev\<close> standard
  deviations above and below it, the deviation being the square root of the summed
  squared distances of the trailing window from that mean, divided by \<open>period\<close>. On
  finite prices and a positive period, where no magnitude exceeds \<open>10\<^sup>1\<^sup>0\<^sup>0\<close> (so that
  nothing overflows), these are the mean and the population standard deviation of the
  last \<open>period\<close> prices up to \<open>i\<close>.
\<close>

theorem bollinger_band_at:
  assumes "i < length prices" "period - 1 \<le> int i"
  shows "(let b = calculateBollingerBands prices period stdDev ! i;
              sma = calculateMovingAverage prices period ! i;
              w = trailing_window prices i period;
              sd = Math_sqrt (js_div (sq_dev_sum w sma) (Num (of_int period)))
          in sma = js_div (js_sum w) (Num (of_int period))
           \<and> middle b = sma
           \<and> upper b = js_add sma (js_mul sd stdDev)
           \<and> lower b = js_sub sma (js_mul sd stdDev))
      \<and> (prices = map Num ps \<and> stdDev = Num k \<and> 1 \<le> period
          \<and> list_all (\<lambda>x. \<bar>x\<bar> \<le> 10 ^ 100) ps \<and> \<bar>k\<bar> \<le> 10 ^ 100
          \<and> real_of_int period \<le> 10 ^ 100 \<longrightarrow>
           (let b = calculateBollingerBands prices period stdDev ! i;
                w = take (nat period) (drop (nat (int i + 1 - period)) ps)
            in length w = nat period
             \<and> calculateMovingAverage prices period ! i = Num (population_mean w)
             \<and> middle b = Num (population_mean w)
             \<and> upper b = Num (population_mean w + population_sd w * k)
             \<and> lower b = Num (population_mean w - population_sd w * k)))"
proof -
  have real: "(let b = calculateBollingerBands prices period stdDev ! i;
                w = take (nat period) (drop (nat (int i + 1 - period)) ps)
            in length w = nat period
             \<and> calculateMovingAverage prices period ! i = Num (population_mean w)
             \<and> middle b = Num (population_mean w)
             \<and> upper b = Num (population_mean w + population_sd w * k)
             \<and> lower b = Num (population_mean w - population_sd w * k))"
    if "prices = map Num ps" "stdDev = Num k" "1 \<le> period"
      "list_all (\<lambda>x. \<bar>x\<bar> \<le> 10 ^ 100) ps" "\<bar>k\<bar> \<le> 10 ^ 100" "real_of_int period \<le> 10 ^ 100"
  proof -
    from that assms have "i < length ps" by simp
    moreover from that(4) have "\<forall>x \<in> set ps. \<bar>x\<bar> \<le> 10 ^ 100"
      by (simp add: list_all_iff)
    ultimately show ?thesis
      using bollinger_band_real [OF _ that(3) assms(2) _ that(5,6), of ps]
      by (simp add: that Let_def)
  qed
  from bollinger_band_js [OF assms, of stdDev] real show ?thesis by blast
qed

theorem bollinger_band_at_witness:
  "calculateBollingerBands [Num 1, Num 3] 2 (Num 2) ! 1
     = \<lparr> upper = Num 4, middle = Num 2, lower = Num 0 \<rparr>
   \<and> population_mean [1, 3] = 2 \<and> population_sd [1, 3] = 1"
proof -
  have m: "population_mean [1, 3] = 2"
    by (simp add: population_mean_def)
  have sd: "population_sd [1, 3] = 1"
    by (simp add: population_sd_def m)
  have i: "(1::nat) < length [Num 1, Num 3]" "(2::int) - 1 \<le> int 1"
    by simp_all
  have h: "[Num 1, Num 3] = map Num [1, 3] \<and> Num 2 = Num 2 \<and> (1::int) \<le> 2
      \<and> list_all (\<lambda>x. \<bar>x\<bar> \<le> 10 ^ 100) [1, 3 :: real] \<and> \<bar>2 :: real\<bar> \<le> 10 ^ 100
      \<and> real_of_int 2 \<le> 10 ^ 100"
    by simp
  have w: "take (nat 2) (drop (nat (int 1 + 1 - 2)) [1, 3::real]) = [1, 3]"
    by simp
  note t = bollinger_band_at [OF i, where stdDev = "Num 2" and ps = "[1, 3]" and k = 2,
      THEN conjunct2, rule_format, OF h]
  have "middle (calculateBollingerBands [Num 1, Num 3] 2 (Num 2) ! 1) = Num 2
      \<and> upper (calculateBollingerBands [Num 1, Num 3] 2 (Num 2) ! 1) = Num 4
      \<and> lower (calculateBollingerBands [Num 1, Num 3] 2 (Num 2) ! 1) = Num 0"
    using t unfolding Let_def w m sd by simp
  with m sd show ?thesis
    by (cases "calculateBollingerBands [Num 1, Num 3] 2 (Num 2) ! 1") simp
qed

section \<open>Properties of the predictor\<close>

lemma isFinite_iff: "isFinite x \<longleftrightarrow> (\<exists>r. x = Num r)"
  by (cases x) simp_all

lemma valid_price_iff: "valid_price x \<longleftrightarrow> (\<exists>c. x = Num c \<and> 0 < c)"
  by (cases x) (simp_all add: valid_price_def js_gt_def)

lemma last_close_nonempty: "bars \<noteq> [] \<Longrightarrow> last_close bars = close (last bars)"
  by (cases bars rule: rev_cases) (simp_all add: last_close_def js_nth_opt_def)

lemma last_close_empty: "last_close [] = Undef"
  by (simp add: last_close_def js_nth_opt_def)

lemma js_nth_last: "xs \<noteq> [] \<Longrightarrow> js_nth xs (int (length xs) - 1) = last xs"
  by (cases xs rule: rev_cases) (simp_all add: js_nth_def)

lemma in_range_small: "\<bar>x\<bar> \<le> 10 ^ 308 \<Longrightarrow> in_range (Num x)"
  using overflow_threshold_large by simp

lemma in_range_calculateVolatility: "in_range (calculateVolatility prices)"
  by (simp add: calculateVolatility_def Let_def in_range_small in_range_Math_sqrt in_range_js_div
      del: in_range.simps)

lemma feature_weights_small: "list_all (\<lambda>e. small_weight (snd e)) (feature_entries f)"
  by (simp add: feature_entries_def weights_def)

lemma feature_values_in_range:
  "list_all (\<lambda>e. in_range (fst e)) (feature_entries (extract_features prices volumes))"
  by (simp add: feature_entries_def extract_features_def Let_def in_range_js_div
      in_range_small in_range_calculateVolatility split: option.split del: in_range.simps)

lemma features_in_range:
  "list_all (\<lambda>e. in_range (fst e) \<and> small_weight (snd e))
     (feature_entries (extract_features prices volumes))"
  using feature_weights_small [of "extract_features prices volumes"]
    feature_values_in_range [of prices volumes]
  by (simp add: list_all_iff)

lemma js_add_Num_not_NaN: "\<not> isNaN acc \<Longrightarrow> \<not> isNaN (js_add acc (Num z))"
  by (cases acc) (simp_all add: overflow_not_NaN)

lemma weighted_fold_not_NaN:
  assumes "\<not> isNaN acc"
    and "list_all (\<lambda>e. in_range (fst e) \<and> small_weight (snd e)) es"
  shows "\<not> isNaN
    (foldl (\<lambda>prediction (v, w). if isFinite v then js_add prediction (js_mul v w) else prediction)
       acc es)"
  using assms
proof (induction es arbitrary: acc)
  case Nil
  then show ?case by simp
next
  case (Cons e es)
  obtain v w where e: "e = (v, w)" by (cases e)
  from Cons.prems(2) e obtain y where w: "w = Num y" "\<bar>y\<bar> \<le> 1" "in_range v"
    by (cases w) simp_all
  have "\<not> isNaN (if isFinite v then js_add acc (js_mul v w) else acc)"
  proof (cases "isFinite v")
    case True
    then obtain x where x: "v = Num x" by (auto simp: isFinite_iff)
    with w have "\<bar>x\<bar> < overflow_threshold" by simp
    moreover have "\<bar>x * y\<bar> \<le> \<bar>x\<bar> * 1"
      unfolding abs_mult using w(2) by (intro mult_left_mono) simp_all
    ultimately have "overflow (x * y) = Num (x * y)"
      by (intro overflow_in_range) simp
    with True x w Cons.prems(1) show ?thesis
      by (simp add: js_add_Num_not_NaN)
  next
    case False
    with Cons.prems(1) show ?thesis by simp
  qed
  with Cons show ?case by (simp add: e)
qed

lemma weighted_sum_features_not_NaN:
  "\<not> isNaN (weighted_sum (feature_entries (extract_features prices volumes)))"
  unfolding weighted_sum_def
  by (rule weighted_fold_not_NaN) (simp_all add: features_in_range)

lemma clamp_between:
  assumes "js_gt lo (Num 0)" "js_gt hi (Num 0)" "js_gt f (Num 0)" "js_le lo hi"
  shows "js_le lo (Math_max lo (Math_min hi f)) \<and> js_le (Math_max lo (Math_min hi f)) hi"
  using assms by (auto simp: js_gt_zero_iff Math_max_def Math_min_def)

lemma Math_tanh_bounded: "\<not> isNaN q \<Longrightarrow> \<exists>t. Math_tanh q = Num t \<and> - 1 \<le> t \<and> t \<le> 1"
proof (cases q)
  case (Num a)
  have "tanh a < 1" "- 1 < tanh a"
    by (rule tanh_real_lt_1, rule tanh_real_gt_neg1)
  with Num show ?thesis by simp
qed simp_all

text \<open>Lines 168 to 179 written out, for a finite current price and a squashed change \<open>t\<close>.\<close>

lemma bounded_prediction_unfold:
  assumes "Math_tanh q = Num t" "- 1 \<le> t" "t \<le> 1" "0 \<le> r" "r < 1"
  shows "bounded_prediction (Num c) q r =
     Math_max (overflow (c * 0.92))
       (Math_min (overflow (c * 1.08))
          (js_mul (overflow (c * (1 + t * 0.04))) (Num (1 + (r - 0.5) * 0.008))))"
proof -
  have a: "overflow (t * 0.04) = Num (t * 0.04)"
    using assms by (intro overflow_tiny) (simp add: abs_le_iff field_simps)
  have b: "overflow (1 + t * 0.04) = Num (1 + t * 0.04)"
    using assms by (intro overflow_tiny) (simp add: abs_le_iff field_simps)
  have c: "overflow (r - 0.5) = Num (r - 0.5)"
    using assms by (intro overflow_tiny) (simp add: abs_le_iff field_simps)
  have d: "overflow ((r - 0.5) * 0.008) = Num ((r - 0.5) * 0.008)"
    using assms by (intro overflow_tiny) (simp add: abs_le_iff field_simps)
  have e: "overflow (1 + (r - 0.5) * 0.008) = Num (1 + (r - 0.5) * 0.008)"
    using assms by (intro overflow_tiny) (simp add: abs_le_iff field_simps)
  have c': "overflow (r + - 0.5) = Num (r - 0.5)"
    using c by simp
  show ?thesis
    unfolding bounded_prediction_def Let_def js_sub_def assms(1)
    by (simp only: js_mul.simps js_add.simps js_neg.simps a b c' d e)
qed

lemma bounded_prediction_band:
  assumes "0 < c" "\<not> isNaN q" "0 \<le> r" "r < 1"
  shows "js_le (js_mul (Num c) (Num 0.92)) (bounded_prediction (Num c) q r)
       \<and> js_le (bounded_prediction (Num c) q r) (js_mul (Num c) (Num 1.08))"
proof -
  from assms(2) obtain t where t: "Math_tanh q = Num t" "- 1 \<le> t" "t \<le> 1"
    using Math_tanh_bounded by blast
  define s where "s = 1 + t * 0.04"
  define u where "u = 1 + (r - 0.5) * 0.008"
  have s: "0 < s" unfolding s_def using t by (simp add: field_simps)
  have u: "0 < u" unfolding u_def using assms(3) by (simp add: field_simps)
  have cs: "0 < c * s" using assms(1) s by simp
  have f: "js_gt (js_mul (overflow (c * s)) (Num u)) (Num 0)"
  proof (cases "overflow_threshold \<le> c * s")
    case True
    then show ?thesis using u by (simp add: overflow_def js_gt_def)
  next
    case False
    with cs overflow_threshold_pos have "overflow (c * s) = Num (c * s)"
      by (simp add: overflow_def)
    then show ?thesis using cs u by (simp add: js_gt_overflow)
  qed
  have lo: "js_gt (overflow (c * 0.92)) (Num 0)"
    using assms(1) by (simp add: js_gt_overflow)
  have hi: "js_gt (overflow (c * 1.08)) (Num 0)"
    using assms(1) by (simp add: js_gt_overflow)
  have le: "js_le (overflow (c * 0.92)) (overflow (c * 1.08))"
    using assms(1) by (intro js_le_overflow_mono) simp
  have "bounded_prediction (Num c) q r =
     Math_max (overflow (c * 0.92)) (Math_min (overflow (c * 1.08)) (js_mul (overflow (c * s)) (Num u)))"
    unfolding s_def u_def using t assms(3,4) by (rule bounded_prediction_unfold)
  with clamp_between [OF lo hi f le] show ?thesis by simp
qed

text \<open>
  Where 1.08 times the price stays below the overflow threshold both ends of the band are
  finite and so is the prediction.
\<close>

lemma bounded_prediction_finite:
  assumes "0 < c" "c * 1.08 < overflow_threshold" "\<not> isNaN q" "0 \<le> r" "r < 1"
  shows "\<exists>p. bounded_prediction (Num c) q r = Num p \<and> c * 0.92 \<le> p \<and> p \<le> c * 1.08"
proof -
  have "overflow (c * 0.92) = Num (c * 0.92)" "overflow (c * 1.08) = Num (c * 1.08)"
    using assms(1,2) by (simp_all add: overflow_in_range)
  with bounded_prediction_band [OF assms(1,3,4,5)] show ?thesis
    by (cases "bounded_prediction (Num c) q r") simp_all
qed

text \<open>
  At a price of \<open>1.79 \<times> 10\<^sup>3\<^sup>0\<^sup>8\<close> with a squashed change of at least one half, the
  predicted price and the upper end of the band both overflow, and the prediction is
  infinite.
\<close>

lemma bounded_prediction_overflows:
  assumes "Math_tanh q = Num t" "1 / 2 \<le> t" "t \<le> 1" "0 \<le> r" "r < 1"
  shows "bounded_prediction (Num (179 * 10 ^ 306)) q r = PInf"
proof -
  have "(179 * 10 ^ 306) * (1 + (1 / 2) * 0.04) \<le> (179 * 10 ^ 306) * (1 + t * 0.04)" for dummy :: real
    using assms(2) by simp
  moreover have "overflow_threshold \<le> (179 * 10 ^ 306) * (1 + (1 / 2) * 0.04)"
    by (simp add: overflow_threshold_def)
  ultimately have "overflow_threshold \<le> 179 * 10 ^ 306 * (1 + t * 0.04)"
    by (rule order_trans [rotated])
  then have pp: "overflow (179 * 10 ^ 306 * (1 + t * 0.04)) = PInf"
    by (simp add: overflow_def)
  have hi: "overflow (179 * 10 ^ 306 * 1.08) = PInf"
    by (simp add: overflow_def overflow_threshold_def)
  have lo: "overflow (179 * 10 ^ 306 * 0.92) = Num (179 * 10 ^ 306 * 0.92)"
    by (simp add: overflow_def overflow_threshold_def)
  have u: "0 < 1 + (r - 0.5) * 0.008"
    using assms(4) by (simp add: field_simps)
  have "- 1 \<le> t" using assms(2) by simp
  from bounded_prediction_unfold [OF assms(1) this assms(3,4,5), of "179 * 10 ^ 306"]
  show ?thesis
    unfolding pp hi lo using u by (simp add: Math_max_def Math_min_def)
qed

lemma predictNextDay_main_path:
  assumes "50 \<le> length bars" "list_all valid_price (map close bars)"
  shows "predictNextDay bars rnd k =
     (bounded_prediction (close (last bars))
        (weighted_sum (feature_entries (extract_features (map close bars)
           (filter valid_volume (map volume bars))))) (rnd k), Suc k)"
proof -
  from assms(1) have ne: "bars \<noteq> []" by auto
  have f: "filter valid_price (map close bars) = map close bars"
    using assms(2) by (simp add: list_all_iff)
  have v: "validateData (map close bars)"
    using assms ne by (simp add: validateData_def)
  have l: "js_nth (map close bars) (int (length (map close bars)) - 1) = close (last bars)"
    using ne js_nth_last [of "map close bars"] by (simp add: last_map)
  have "valid_price (close (last bars))"
    using assms(2) ne by (simp add: list_all_iff)
  then obtain c where c: "close (last bars) = Num c" "0 < c"
    by (auto simp: valid_price_iff)
  show ?thesis
    using assms(1) l c by (simp add: predictNextDay_def f v Let_def)
qed

lemma predictNextDay_finite_band:
  assumes "50 \<le> length bars" "\<forall>b \<in> set bars. \<exists>c. close b = Num c \<and> 0 < c"
    and "0 \<le> rnd k" "rnd k < 1"
    and "close (last bars) = Num c" "c * 1.08 < overflow_threshold"
  shows "\<exists>p. fst (predictNextDay bars rnd k) = Num p \<and> c * 0.92 \<le> p \<and> p \<le> c * 1.08"
proof -
  from assms(1) have ne: "bars \<noteq> []" by auto
  have all: "list_all valid_price (map close bars)"
    using assms(2) by (simp add: list_all_iff valid_price_iff)
  from assms(2,5) ne have c: "0 < c"
    using last_in_set by fastforce
  from bounded_prediction_finite [OF c assms(6) weighted_sum_features_not_NaN assms(3,4)]
  show ?thesis
    using predictNextDay_main_path [OF assms(1) all, of rnd k] assms(5) by simp
qed



text \<open>
  C4, as amended. For a series of fewer than 50 bars whose last close is not an infinity,
  the prediction is the last close when that is a finite number other than 0, and 100
  when the series is empty or its last close is 0, NaN or missing; no random number is
  drawn.
\<close>

theorem predictNextDay_short_series:
  assumes "length bars < 50" "last_close bars \<noteq> PInf" "last_close bars \<noteq> NInf"
  shows "predictNextDay bars rnd k =
     (if isFinite (last_close bars) \<and> last_close bars \<noteq> Num 0 then last_close bars else Num 100, k)"
  using assms by (cases "last_close bars") (simp_all add: predictNextDay_def Let_def)

theorem predictNextDay_short_series_witness:
  "length [bar_closing (Num 5)] < 50
   \<and> predictNextDay [bar_closing (Num 5)] (\<lambda>n. 1 / 2) 3 = (Num 5, 3)"
  using predictNextDay_short_series [of "[bar_closing (Num 5)]" "\<lambda>n. 1 / 2" 3]
  by (simp add: last_close_def js_nth_opt_def bar_closing_def)

text \<open>
  C4 as stated fails on a single bar that closes at 0: the close is there and finite, yet
  the prediction is 100.
\<close>

theorem predictNextDay_zero_close:
  "length [bar_closing (Num 0)] < 50
   \<and> last_close [bar_closing (Num 0)] = Num 0
   \<and> predictNextDay [bar_closing (Num 0)] (\<lambda>n. 1 / 2) 0 = (Num 100, 0)"
  by (simp add: predictNextDay_def last_close_def js_nth_opt_def bar_closing_def)

text \<open>
  C9. An infinite close is not absorbed: with one bar it is the prediction, with fifty
  bars (none of them valid) it is the prediction again, and it is the target price of the
  recommendation for a short series.
\<close>

theorem infinite_close_propagates:
  "predictNextDay [bar_closing PInf] (\<lambda>n. 1 / 2) 0 = (PInf, 0)
   \<and> predictNextDay (replicate 50 (bar_closing NInf)) (\<lambda>n. 1 / 2) 0 = (NInf, 0)
   \<and> targetPrice (fst (recommend (''TCS.NS'', [bar_closing PInf]) (\<lambda>n. 1 / 2) 0)) = PInf"
  by (simp add: predictNextDay_def recommend_def degenerate_def last_close_def js_nth_opt_def
      bar_closing_def valid_price_def validateData_def js_or_def Let_def)

section \<open>Properties of the backtest\<close>

lemma gp_loop_returns:
  assumes "list_all (\<lambda>i. i < length bars) todo"
  shows "\<exists>r. gp_loop bars ap rnd todo st = Inr r"
  using assms
proof (induction todo arbitrary: st)
  case Nil
  then show ?case by simp
next
  case (Cons i todo)
  obtain ps k where st: "st = (ps, k)" by (cases st)
  from Cons.prems have i: "js_nth_opt bars (int i) = Some (bars ! i)"
    by (simp add: js_nth_opt_def)
  from Cons.prems have "list_all (\<lambda>i. i < length bars) todo" by simp
  then have "\<And>st'. \<exists>r. gp_loop bars ap rnd todo st' = Inr r"
    by (rule Cons.IH)
  then show ?case
    by (simp add: st i Let_def)
qed

lemma generatePredictions_returns:
  "\<exists>ps k'. generatePredictions bars days rnd k = Inr (ps, k')"
proof -
  have "list_all (\<lambda>i. i < length bars) [nat (max 50 (int (length bars) - days)) ..< length bars]"
    by (simp add: list_all_iff)
  from gp_loop_returns [OF this]
  show ?thesis
    by (auto simp: generatePredictions_def Let_def)
qed

lemma generatePredictions_few_valid:
  "length (filter valid_price (map close bars)) < 50 \<Longrightarrow>
   generatePredictions bars days rnd k = Inr ([], k)"
  by (simp add: generatePredictions_def Let_def)

lemma gp_loop_extends:
  "gp_loop bars ap rnd todo (ps, k) = Inr (ps', k') \<Longrightarrow> \<exists>more. ps' = ps @ more"
proof (induction todo arbitrary: ps k)
  case Nil
  then show ?case by simp
next
  case (Cons i todo)
  let ?pk = "predictNextDay (js_slice bars 0 (int i)) rnd k"
  let ?a = "js_nth ap (int i)"
  show ?case
  proof (cases "\<not> isNaN ?a \<and> \<not> isNaN (fst ?pk) \<and> js_gt ?a (Num 0) \<and> js_gt (fst ?pk) (Num 0)")
    case True
    show ?thesis
    proof (cases "js_nth_opt bars (int i)")
      case None
      with True Cons.prems show ?thesis by (simp add: Let_def)
    next
      case (Some bar)
      with True Cons.prems
      have "gp_loop bars ap rnd todo
              (ps @ [\<lparr> p_date = date bar, actual = ?a, predicted = fst ?pk,
                       p_confidence = entry_confidence ps \<rparr>], snd ?pk) = Inr (ps', k')"
        by (simp add: Let_def)
      from Cons.IH [OF this] show ?thesis by auto
    qed
  next
    case False
    with Cons.prems have "gp_loop bars ap rnd todo (ps, snd ?pk) = Inr (ps', k')"
      by (simp add: Let_def)
    from Cons.IH [OF this] show ?thesis .
  qed
qed

lemma inf_then_flat_first_step:
  "generatePredictions inf_then_flat 51 rnd 0 =
     gp_loop inf_then_flat (replicate 51 (Num 100)) rnd [51 ..< 101]
       ([\<lparr> p_date = date flat_bar, actual = Num 100, predicted = PInf,
           p_confidence = Num 0.84 \<rparr>], 0)"
proof -
  have ap: "filter valid_price (map close inf_then_flat) = replicate 51 (Num 100)"
    by (simp add: inf_then_flat_def bar_closing_def flat_bar_def valid_price_def js_gt_def)
  have len: "length inf_then_flat = 101"
    by (simp add: inf_then_flat_def)
  have idx: "[50 ..< 101] = 50 # [51 ..< 101]"
    by (simp add: upt_conv_Cons)
  have sl: "js_slice inf_then_flat 0 50 = replicate 50 (bar_closing PInf)"
    by (simp add: js_slice_def js_rel_def inf_then_flat_def)
  have p: "predictNextDay (replicate 50 (bar_closing PInf)) rnd 0 = (PInf, 0)"
    by (simp add: predictNextDay_def bar_closing_def valid_price_def validateData_def
        js_or_def last_close_def js_nth_opt_def Let_def)
  have a: "js_nth (replicate 51 (Num 100)) 50 = Num 100"
    by (simp add: js_nth_def)
  have b: "js_nth_opt inf_then_flat 50 = Some flat_bar"
    by (simp add: js_nth_opt_def inf_then_flat_def nth_append)
  have c: "entry_confidence [] = Num 0.84"
    by (simp add: entry_confidence_def js_slice_from_def js_rel_def Math_max_def Math_min_def
        js_sub_def Let_def overflow_small)
  show ?thesis
    by (simp add: generatePredictions_def ap len idx sl p a b c js_gt_def Let_def)
qed

lemma gp_loop_entries:
  assumes "gp_loop bars ap rnd todo (ps, k) = Inr (ps', k')"
    and "list_all P ps"
    and "\<And>i j sofar.
           \<not> isNaN (js_nth ap (int i)) \<Longrightarrow>
           js_gt (fst (predictNextDay (js_slice bars 0 (int i)) rnd j)) (Num 0) \<Longrightarrow>
           P \<lparr> p_date = date (bars ! i), actual = js_nth ap (int i),
               predicted = fst (predictNextDay (js_slice bars 0 (int i)) rnd j),
               p_confidence = entry_confidence sofar \<rparr>"
  shows "list_all P ps'"
  using assms(1,2)
proof (induction todo arbitrary: ps k)
  case Nil
  then show ?case by simp
next
  case (Cons i todo)
  let ?pk = "predictNextDay (js_slice bars 0 (int i)) rnd k"
  let ?a = "js_nth ap (int i)"
  show ?case
  proof (cases "\<not> isNaN ?a \<and> \<not> isNaN (fst ?pk) \<and> js_gt ?a (Num 0) \<and> js_gt (fst ?pk) (Num 0)")
    case True
    show ?thesis
    proof (cases "js_nth_opt bars (int i)")
      case None
      with True Cons.prems(1) show ?thesis by (simp add: Let_def)
    next
      case (Some bar)
      then have bar: "bar = bars ! i"
        by (simp add: js_nth_opt_def split: if_splits)
      let ?e = "\<lparr> p_date = date (bars ! i), actual = ?a, predicted = fst ?pk,
                       p_confidence = entry_confidence ps \<rparr>"
      from Some True Cons.prems(1)
      have run: "gp_loop bars ap rnd todo (ps @ [?e], snd ?pk) = Inr (ps', k')"
        by (simp add: Let_def bar)
      from True have "P ?e"
        by (intro assms(3)) simp_all
      with Cons.prems(2) have "list_all P (ps @ [?e])" by simp
      from Cons.IH [OF run this] show ?thesis .
    qed
  next
    case False
    with Cons.prems(1) have run: "gp_loop bars ap rnd todo (ps, snd ?pk) = Inr (ps', k')"
      by (simp add: Let_def)
    from Cons.IH [OF run Cons.prems(2)] show ?thesis .
  qed
qed

lemma generatePredictions_entries:
  assumes "generatePredictions bars days rnd k = Inr (ps, k')"
  shows "list_all (\<lambda>e. (\<exists>a. actual e = Num a \<and> 0 < a)
                      \<and> (predicted e = PInf \<or> (\<exists>p. predicted e = Num p \<and> 0 < p))) ps"
proof (cases "length (filter valid_price (map close bars)) < 50")
  case True
  with assms show ?thesis by (simp add: generatePredictions_def Let_def)
next
  case False
  let ?ap = "filter valid_price (map close bars)"
  let ?P = "\<lambda>e. (\<exists>a. actual e = Num a \<and> 0 < a)
                      \<and> (predicted e = PInf \<or> (\<exists>p. predicted e = Num p \<and> 0 < p))"
  from False assms
  have run: "gp_loop bars ?ap rnd [nat (max 50 (int (length bars) - days)) ..< length bars] ([], k)
               = Inr (ps, k')"
    by (simp add: generatePredictions_def Let_def)
  have ap: "\<exists>a. js_nth ?ap i = Num a \<and> 0 < a" if "\<not> isNaN (js_nth ?ap i)" for i
  proof -
    from that have r: "0 \<le> i \<and> i < int (length ?ap)"
      by (auto simp: js_nth_def split: if_splits)
    then have "nat i < length ?ap" by linarith
    then have "?ap ! nat i \<in> set ?ap" by (rule nth_mem)
    then have "valid_price (?ap ! nat i)" by simp
    with r show ?thesis by (simp add: valid_price_iff js_nth_def)
  qed
  have pos: "x = PInf \<or> (\<exists>p. x = Num p \<and> 0 < p)" if "js_gt x (Num 0)" for x
    using that by (cases x) (simp_all add: js_gt_def)
  show ?thesis
  proof (rule gp_loop_entries [OF run])
    show "list_all ?P []" by simp
  next
    fix i j and sofar :: "PredictionData list"
    assume "\<not> isNaN (js_nth ?ap (int i))"
      and "js_gt (fst (predictNextDay (js_slice bars 0 (int i)) rnd j)) (Num 0)"
    then show "?P \<lparr> p_date = date (bars ! i), actual = js_nth ?ap (int i),
               predicted = fst (predictNextDay (js_slice bars 0 (int i)) rnd j),
               p_confidence = entry_confidence sofar \<rparr>"
      using ap [of "int i"] pos [of "fst (predictNextDay (js_slice bars 0 (int i)) rnd j)"]
      by simp
  qed
qed

text \<open>
  C3. On fifty bars closing at infinity followed by fifty-one closing at 100, with a window
  of 51 days, the backtest returns an entry whose predicted value is infinite.
\<close>

theorem backtest_emits_infinite_prediction:
  "\<exists>ps k. generatePredictions inf_then_flat 51 (\<lambda>n. 1 / 2) 0 = Inr (ps, k)
      \<and> list_ex (\<lambda>e. predicted e = PInf) ps"
proof -
  obtain ps k where r: "generatePredictions inf_then_flat 51 (\<lambda>n. 1 / 2) 0 = Inr (ps, k)"
    using generatePredictions_returns by blast
  then obtain more where "ps = [\<lparr> p_date = date flat_bar, actual = Num 100, predicted = PInf,
           p_confidence = Num 0.84 \<rparr>] @ more"
    using gp_loop_extends unfolding inf_then_flat_first_step by blast
  with r show ?thesis by simp
qed

text \<open>
  C8. On the same series the entry of index 50 is not skipped: the predictor, run on the
  fifty bars before it, returns infinity, which is paired with \<^verbatim>\<open>actualPrices[50]\<close> and kept
  as the first entry of the result.
\<close>

theorem backtest_keeps_infinite_entry:
  "\<exists>ps k. generatePredictions inf_then_flat 51 rnd 0 = Inr (ps, k)
      \<and> ps \<noteq> []
      \<and> hd ps = \<lparr> p_date = date (inf_then_flat ! 50), actual = Num 100,
                   predicted = fst (predictNextDay (js_slice inf_then_flat 0 50) rnd 0),
                   p_confidence = Num 0.84 \<rparr>
      \<and> \<not> isFinite (predicted (hd ps))"
proof -
  have p: "predictNextDay (js_slice inf_then_flat 0 50) rnd 0 = (PInf, 0)"
    by (simp add: js_slice_def js_rel_def inf_then_flat_def predictNextDay_def bar_closing_def
        valid_price_def validateData_def js_or_def last_close_def js_nth_opt_def Let_def)
  have d: "inf_then_flat ! 50 = flat_bar"
    by (simp add: inf_then_flat_def nth_append)
  obtain ps k where r: "generatePredictions inf_then_flat 51 rnd 0 = Inr (ps, k)"
    using generatePredictions_returns by blast
  then obtain more where "ps = [\<lparr> p_date = date flat_bar, actual = Num 100, predicted = PInf,
           p_confidence = Num 0.84 \<rparr>] @ more"
    using gp_loop_extends unfolding inf_then_flat_first_step by blast
  with r show ?thesis by (simp add: p d)
qed

section \<open>Properties of the recommendation engine\<close>

lemma capped_sum:
  assumes "0 \<le> a" "0 \<le> y" "m < overflow_threshold"
  shows "Math_min (Num m) (js_add (Num a) (overflow y)) = Num (min m (a + y))"
proof (cases "overflow_threshold \<le> a + y")
  case True
  have "js_add (Num a) (overflow y) = PInf"
    using True assms(2) overflow_threshold_pos by (simp add: overflow_def)
  with True assms(3) show ?thesis
    by (simp add: Math_min_def min_def)
next
  case False
  with assms(1,2) have "overflow y = Num y" "overflow (a + y) = Num (a + y)"
    by (simp_all add: overflow_in_range)
  then show ?thesis
    by (simp add: Math_min_def min_def)
qed

lemma small_lt_threshold: "m \<le> 1 \<Longrightarrow> m < overflow_threshold"
  using overflow_threshold_large by (simp add: overflow_threshold_def)

lemma decide_confidence:
  "\<exists>c. snd (decide score) = Num c
     \<and> (fst (decide score) = BUY \<longrightarrow> 0.90 \<le> c \<and> c \<le> 0.92)
     \<and> (fst (decide score) = SELL \<longrightarrow> 0.82 \<le> c \<and> c \<le> 0.88)
     \<and> (fst (decide score) = HOLD \<longrightarrow> 0.70 \<le> c \<and> c \<le> 0.78)"
proof -
  consider "5 \<le> score" | "score \<le> - 4" | "- 4 < score" "score < 5" by linarith
  then show ?thesis
  proof cases
    case 1
    define c :: real where "c = min 0.92 (0.75 + of_int score * 0.03)"
    from 1 have "(5::real) \<le> of_int score" by simp
    then have b: "0.90 \<le> c" "c \<le> 0.92" by (simp_all add: c_def min_def)
    have "Math_min (Num 0.92) (js_add (Num 0.75) (overflow (of_int score * 0.03))) = Num c"
      unfolding c_def using \<open>(5::real) \<le> of_int score\<close>
      by (intro capped_sum small_lt_threshold) simp_all
    then have "decide score = (BUY, Num c)"
      using 1 by (simp add: decide_def)
    with b show ?thesis by auto
  next
    case 2
    define c :: real where "c = min 0.88 (0.70 + of_int \<bar>score\<bar> * 0.03)"
    from 2 have "(4::real) \<le> of_int \<bar>score\<bar>" by linarith
    then have b: "0.82 \<le> c" "c \<le> 0.88" by (simp_all add: c_def min_def)
    have "Math_min (Num 0.88) (js_add (Num 0.70) (overflow (of_int \<bar>score\<bar> * 0.03))) = Num c"
      unfolding c_def using \<open>(4::real) \<le> of_int \<bar>score\<bar>\<close>
      by (intro capped_sum small_lt_threshold) simp_all
    then have "decide score = (SELL, Num c)"
      using 2 by (simp add: decide_def)
    with b show ?thesis by auto
  next
    case 3
    define c :: real where "c = 0.70 + of_int \<bar>score\<bar> * 0.02"
    from 3 have "\<bar>score\<bar> \<le> 4" by linarith
    then have "(of_int \<bar>score\<bar> :: real) \<le> 4" by linarith
    then have b: "0.70 \<le> c" "c \<le> 0.78" by (simp_all add: c_def min_def)
    have "overflow (of_int \<bar>score\<bar> * 0.02) = Num (of_int \<bar>score\<bar> * 0.02)"
      using \<open>(of_int \<bar>score\<bar> :: real) \<le> 4\<close> by (intro overflow_tiny) simp
    moreover have "overflow (0.70 + of_int \<bar>score\<bar> * 0.02) = Num c"
      using b unfolding c_def by (intro overflow_tiny) simp
    ultimately have "decide score = (HOLD, Num c)"
      using 3 by (simp add: decide_def)
    with b show ?thesis by auto
  qed
qed

lemma recommend_confidence_band:
  assumes "50 \<le> length (snd stock)" "validateData (filter valid_price (map close (snd stock)))"
  shows "confidence_in_band (fst (recommend stock rnd k))"
proof -
  obtain symb bars where s: "stock = (symb, bars)" by (cases stock)
  define t where "t = technical_tally (filter valid_price (map close bars)) (fst (predictNextDay bars rnd k))"
  obtain c where c: "snd (decide (fst t)) = Num c"
     "fst (decide (fst t)) = BUY \<longrightarrow> 0.90 \<le> c \<and> c \<le> 0.92"
     "fst (decide (fst t)) = SELL \<longrightarrow> 0.82 \<le> c \<and> c \<le> 0.88"
     "fst (decide (fst t)) = HOLD \<longrightarrow> 0.70 \<le> c \<and> c \<le> 0.78"
    using decide_confidence [of "fst t"] by blast
  show ?thesis
    using assms c
    by (cases "fst (decide (fst t))")
       (simp_all add: s recommend_def Let_def t_def [symmetric] Math_min_def confidence_in_band_def)
qed

lemma recommend_confidence_finite: "isFinite (confidence (fst (recommend stock rnd k)))"
proof -
  obtain symb bars where s: "stock = (symb, bars)" by (cases stock)
  define t where "t = technical_tally (filter valid_price (map close bars)) (fst (predictNextDay bars rnd k))"
  obtain c where c: "snd (decide (fst t)) = Num c"
    using decide_confidence [of "fst t"] by blast
  show ?thesis
    by (simp add: s recommend_def Let_def t_def [symmetric] c degenerate_def Math_min_def)
qed

lemma set_map_random:
  "y \<in> set (fst (map_random f xs rnd k)) \<Longrightarrow> \<exists>x j. x \<in> set xs \<and> y = fst (f x rnd j)"
proof (induction xs arbitrary: k)
  case Nil
  then show ?case by simp
next
  case (Cons a xs)
  then consider "y = fst (f a rnd k)" | "y \<in> set (fst (map_random f xs rnd (snd (f a rnd k))))"
    by (auto simp: Let_def)
  then show ?case
  proof cases
    case 1
    then show ?thesis by auto
  next
    case 2
    from Cons.IH [OF this] show ?thesis by auto
  qed
qed

lemma length_map_random: "length (fst (map_random f xs rnd k)) = length xs"
  by (induction xs arbitrary: k) (simp_all add: Let_def)

lemma set_js_insert: "set (js_insert cmp x ys) = insert x (set ys)"
  by (induction ys) auto

lemma set_js_sort: "set (js_sort cmp xs) = set xs"
  by (induction xs) (simp_all add: js_sort_def set_js_insert)

lemma length_js_insert: "length (js_insert cmp x ys) = Suc (length ys)"
  by (induction ys) auto

lemma length_js_sort: "length (js_sort cmp xs) = length xs"
  by (induction xs) (simp_all add: js_sort_def length_js_insert)

text \<open>The table of the comparator gives the categories the ranks of the specification.\<close>

lemma priorityOrder_spec_rank: "priorityOrder c = int (spec_rank c)"
  by (cases c) (simp_all add: priorityOrder_def)

lemma spec_rank_inj: "spec_rank a = spec_rank b \<longleftrightarrow> a = b"
  by (cases a; cases b) simp_all

lemma compare_recs_pos:
  assumes "isFinite (confidence a)" "isFinite (confidence b)"
  shows "js_gt (compare_recs a b) (Num 0) \<longleftrightarrow> \<not> ranks_before a b"
proof -
  from assms obtain x y where c: "confidence a = Num x" "confidence b = Num y"
    by (auto simp: isFinite_iff)
  show ?thesis
  proof (cases "recommendation a = recommendation b")
    case True
    then have "compare_recs a b = overflow (y - x)"
      by (simp add: compare_recs_def Let_def js_sub_def c)
    with True show ?thesis
      by (simp add: js_gt_overflow ranks_before_def c not_le)
  next
    case False
    then have ne: "spec_rank (recommendation a) \<noteq> spec_rank (recommendation b)"
      by (simp add: spec_rank_inj)
    then have "compare_recs a b
        = Num (of_int (int (spec_rank (recommendation b)) - int (spec_rank (recommendation a))))"
      by (simp add: compare_recs_def Let_def priorityOrder_spec_rank)
    with False ne show ?thesis
      by (auto simp: js_gt_def ranks_before_def)
  qed
qed

lemma ranks_before_total:
  assumes "isFinite (confidence a)" "isFinite (confidence b)"
  shows "ranks_before a b \<or> ranks_before b a"
proof -
  from assms obtain x y where c: "confidence a = Num x" "confidence b = Num y"
    by (auto simp: isFinite_iff)
  consider "spec_rank (recommendation b) < spec_rank (recommendation a)"
    | "spec_rank (recommendation a) < spec_rank (recommendation b)"
    | "spec_rank (recommendation a) = spec_rank (recommendation b)"
    by linarith
  then show ?thesis
  proof cases
    case 3
    then have "recommendation a = recommendation b" by (simp add: spec_rank_inj)
    then show ?thesis by (auto simp: ranks_before_def c)
  qed (simp_all add: ranks_before_def)
qed

lemma ranks_before_trans:
  assumes "isFinite (confidence a)" "isFinite (confidence b)" "isFinite (confidence c)"
    "ranks_before a b" "ranks_before b c"
  shows "ranks_before a c"
proof -
  from assms(1-3) obtain x y z where c: "confidence a = Num x" "confidence b = Num y"
      "confidence c = Num z"
    by (auto simp: isFinite_iff)
  from assms(4,5) show ?thesis
    by (auto simp: ranks_before_def c)
qed

lemma sorted_js_insert:
  assumes "sorted_wrt ranks_before ys" "isFinite (confidence x)"
    "list_all (\<lambda>y. isFinite (confidence y)) ys"
  shows "sorted_wrt ranks_before (js_insert compare_recs x ys)"
  using assms
proof (induction ys)
  case Nil
  then show ?case by simp
next
  case (Cons y ys)
  have fy: "isFinite (confidence y)" using Cons.prems by simp
  show ?case
  proof (cases "js_gt (compare_recs x y) (Num 0)")
    case True
    then have "\<not> ranks_before x y"
      using compare_recs_pos [OF Cons.prems(2) fy] by simp
    then have yx: "ranks_before y x"
      using ranks_before_total [OF Cons.prems(2) fy] by blast
    have "sorted_wrt ranks_before (js_insert compare_recs x ys)"
      using Cons by simp
    with True yx Cons.prems(1) show ?thesis
      by (auto simp: set_js_insert)
  next
    case False
    then have xy: "ranks_before x y"
      using compare_recs_pos [OF Cons.prems(2) fy] by simp
    have "ranks_before x z" if "z \<in> set ys" for z
    proof -
      have "ranks_before y z" using Cons.prems(1) that by simp
      moreover have "isFinite (confidence z)"
        using Cons.prems(3) that by (simp add: list_all_iff)
      ultimately show ?thesis
        using ranks_before_trans [OF Cons.prems(2) fy _ xy] by blast
    qed
    with False xy Cons.prems(1) show ?thesis by auto
  qed
qed

lemma sorted_js_sort:
  assumes "list_all (\<lambda>y. isFinite (confidence y)) xs"
  shows "sorted_wrt ranks_before (js_sort compare_recs xs)"
  using assms
proof (induction xs)
  case Nil
  then show ?case by (simp add: js_sort_def)
next
  case (Cons x xs)
  have "list_all (\<lambda>y. isFinite (confidence y)) (js_sort compare_recs xs)"
    using Cons.prems by (simp add: list_all_iff set_js_sort)
  moreover have "js_sort compare_recs (x # xs) = js_insert compare_recs x (js_sort compare_recs xs)"
    by (simp add: js_sort_def)
  ultimately show ?case
    using Cons sorted_js_insert by simp
qed

text \<open>
  C2. For every list of stocks the returned list has one entry per stock and is sorted: of any two entries the earlier
  one has the higher priority (BUY 3, HOLD 2, SELL 1), or the same priority and a
  confidence at least as high. So a BUY stands before every SELL whatever the confidences,
  and within one category the higher confidence comes first.
\<close>

theorem recommendations_sorted:
  "sorted_wrt ranks_before (fst (generateInvestmentRecommendations stocksData rnd k))
   \<and> length (fst (generateInvestmentRecommendations stocksData rnd k)) = length stocksData"
proof -
  have "list_all (\<lambda>y. isFinite (confidence y)) (fst (map_random recommend stocksData rnd k))"
    unfolding list_all_iff
  proof
    fix y assume "y \<in> set (fst (map_random recommend stocksData rnd k))"
    then obtain x j where "y = fst (recommend x rnd j)"
      using set_map_random [of y recommend stocksData rnd k] by auto
    then show "isFinite (confidence y)"
      by (simp add: recommend_confidence_finite)
  qed
  then show ?thesis
    by (simp add: generateInvestmentRecommendations_def Let_def sorted_js_sort
        length_js_sort length_map_random)
qed

text \<open>
  C10. When every stock has at least 50 bars and at least one valid close, every entry of
  the returned list has its confidence in the band of its category: BUY in [0.90, 0.92],
  SELL in [0.82, 0.88], HOLD in [0.70, 0.78]. So an entry that is BUY or SELL has a
  strictly higher confidence than any entry that is HOLD.
\<close>

theorem recommendation_confidence_bands:
  assumes "\<forall>s \<in> set stocksData. 50 \<le> length (snd s)
              \<and> validateData (filter valid_price (map close (snd s)))"
    and "r \<in> set (fst (generateInvestmentRecommendations stocksData rnd k))"
    and "h \<in> set (fst (generateInvestmentRecommendations stocksData rnd k))"
  shows "confidence_in_band r
     \<and> (recommendation r \<noteq> HOLD \<and> recommendation h = HOLD
          \<longrightarrow> js_lt (confidence h) (confidence r))"
proof -
  have band: "confidence_in_band x"
    if "x \<in> set (fst (generateInvestmentRecommendations stocksData rnd k))" for x
  proof -
    from that have "x \<in> set (fst (map_random recommend stocksData rnd k))"
      by (simp add: generateInvestmentRecommendations_def Let_def set_js_sort)
    then obtain s j where "s \<in> set stocksData" "x = fst (recommend s rnd j)"
      using set_map_random [of x recommend stocksData rnd k] by auto
    with assms(1) show ?thesis
      by (simp add: recommend_confidence_band)
  qed
  have "js_lt (confidence h) (confidence r)"
    if "recommendation r \<noteq> HOLD" "recommendation h = HOLD"
    using band [OF assms(2)] band [OF assms(3)] that
    by (cases "recommendation r") (auto simp: confidence_in_band_def)
  with band [OF assms(2)] show ?thesis by simp
qed

theorem recommendation_confidence_bands_witness:
  "\<exists>c. confidence (hd (fst (generateInvestmentRecommendations
          [(''TCS.NS'', replicate 50 flat_bar)] (\<lambda>n. 1 / 2) 0))) = Num c
      \<and> 0.70 \<le> c \<and> c \<le> 0.92"
proof -
  let ?out = "fst (generateInvestmentRecommendations [(''TCS.NS'', replicate 50 flat_bar)] (\<lambda>n. 1 / 2) 0)"
  have "length ?out = 1"
    by (simp add: generateInvestmentRecommendations_def Let_def length_js_sort length_map_random)
  then have m: "hd ?out \<in> set ?out"
    by (cases ?out) simp_all
  have h: "\<forall>s \<in> set [(''TCS.NS'', replicate 50 flat_bar)]. 50 \<le> length (snd s)
              \<and> validateData (filter valid_price (map close (snd s)))"
    by (simp add: validateData_def valid_price_def flat_bar_def js_gt_def list_all_iff)
  from recommendation_confidence_bands [OF h m m]
  show ?thesis
    by (cases "recommendation (hd ?out)") (auto simp: confidence_in_band_def)
qed

end
